theory Spec2Isabelle
  imports Complex_Main
begin

section \<open>Errors\<close>

text \<open>
  Every exception the modelled Python can raise is a value of \<open>error\<close>; a fallible
  function returns \<open>error + 'a\<close> with \<open>Inl\<close> for the raise.  \<open>ShapeMismatch sh\<close> is
  the \<^verbatim>\<open>ValueError\<close> that \<^verbatim>\<open>Concatenate._validate_same_shape\<close> raises itself, carrying the
  shape its message names; the other errors are raised by numpy or by the Python runtime
  (tuple unpacking, indexing, arithmetic on \<^verbatim>\<open>None\<close>).
\<close>

datatype error =
    ShapeMismatch "nat list"
  | ValueError
  | AxisError
  | IndexError
  | TypeError
  | ZeroDivisionError
  | StopIteration

section \<open>Shape and padding arithmetic (conv\_utils.py)\<close>

text \<open>
  Python computes both formulas in floating point (\<^verbatim>\<open>/\<close> is true division).  The model
  uses exact rationals, which agrees with the double-precision result for every operand
  below \<open>2^53\<close>.  \<^verbatim>\<open>math.ceil\<close> is the ceiling, \<^verbatim>\<open>int(...)\<close> truncates towards zero.
\<close>

definition py_int :: "rat \<Rightarrow> int" where
  "py_int x = (if 0 \<le> x then \<lfloor>x\<rfloor> else \<lceil>x\<rceil>)"

definition py_ceil :: "rat \<Rightarrow> int" where
  "py_ceil x = \<lceil>x\<rceil>"

definition compute_conv_padding :: "int \<times> int \<Rightarrow> string \<Rightarrow> int \<times> int" where
  "compute_conv_padding kernel_size mode =
     (if mode = ''same''
      then (case kernel_size of (kH, kW) \<Rightarrow>
              (py_ceil (of_int (kH - 1) / 2), py_ceil (of_int (kW - 1) / 2)))
      else (0, 0))"

definition compute_conv_output_dim :: "int \<Rightarrow> int \<Rightarrow> int \<Rightarrow> int \<Rightarrow> error + int" where
  "compute_conv_output_dim n f p s =
     (if s = 0 then Inl ZeroDivisionError
      else Inr (py_int (of_int (n - f + 2 * p) / of_int s + 1)))"

section \<open>N-dimensional arrays\<close>

text \<open>
  A numpy array is its shape together with its elements in row-major (C) order, which
  is the order \<^verbatim>\<open>reshape\<close> and \<^verbatim>\<open>ravel\<close> read them in.  \<open>wf_array\<close> says that the number of
  elements is the product of the shape.  \<open>ravel\<close> turns a multi-index into the offset in
  the flat list, \<open>unravel\<close> is its inverse, \<open>elem\<close> reads at a multi-index and
  \<open>tabulate\<close> builds the array of a given shape from a function of the multi-index.
  Element values are kept abstract (any type with the operations a function needs):
  float32 rounding, NaN and infinities are not modelled.
\<close>

datatype 'a ndarray = NDArray (shape: "nat list") (flat: "'a list")

definition wf_array :: "'a ndarray \<Rightarrow> bool" where
  "wf_array A \<longleftrightarrow> length (flat A) = prod_list (shape A)"

fun ravel :: "nat list \<Rightarrow> nat list \<Rightarrow> nat" where
  "ravel (d # ds) (i # is) = i * prod_list ds + ravel ds is"
| "ravel _ _ = 0"

fun unravel :: "nat list \<Rightarrow> nat \<Rightarrow> nat list" where
  "unravel [] k = []"
| "unravel (d # ds) k = (k div prod_list ds) # unravel ds (k mod prod_list ds)"

definition valid_idx :: "nat list \<Rightarrow> nat list \<Rightarrow> bool" where
  "valid_idx sh idx \<longleftrightarrow> list_all2 (<) idx sh"

definition elem :: "'a ndarray \<Rightarrow> nat list \<Rightarrow> 'a" where
  "elem A idx = flat A ! ravel (shape A) idx"

definition tabulate :: "nat list \<Rightarrow> (nat list \<Rightarrow> 'a) \<Rightarrow> 'a ndarray" where
  "tabulate sh f = NDArray sh (map (\<lambda>k. f (unravel sh k)) [0..<prod_list sh])"

subsection \<open>Python indexing and slicing\<close>

text \<open>
  \<open>py_index\<close> is \<^verbatim>\<open>xs[i]\<close> on a tuple or list: a negative index counts from the end,
  an index out of range raises.  \<open>py_slice n a b\<close> is the slice \<^verbatim>\<open>a:b\<close> on an axis of
  length \<open>n\<close>, as the pair (first position, number of positions): bounds are clipped,
  a negative bound counts from the end, and \<^verbatim>\<open>-0\<close> is \<open>0\<close>.
\<close>

definition py_index :: "'a list \<Rightarrow> int \<Rightarrow> error + 'a" where
  "py_index xs i =
     (if 0 \<le> i \<and> i < int (length xs) then Inr (xs ! nat i)
      else if - int (length xs) \<le> i \<and> i < 0 then Inr (xs ! nat (int (length xs) + i))
      else Inl IndexError)"

definition py_slice_bound :: "nat \<Rightarrow> int \<Rightarrow> nat" where
  "py_slice_bound n x = (if x < 0 then nat (max 0 (int n + x)) else min n (nat x))"

definition py_slice :: "nat \<Rightarrow> int \<Rightarrow> int \<Rightarrow> nat \<times> nat" where
  "py_slice n a b =
     (let lo = py_slice_bound n a; hi = py_slice_bound n b in (lo, hi - lo))"

subsection \<open>numpy operations\<close>

definition np_zeros :: "nat list \<Rightarrow> ('a::zero) ndarray" where
  "np_zeros sh = NDArray sh (replicate (prod_list sh) 0)"

text \<open>
  \<^verbatim>\<open>reshape\<close>: at most one entry of the target may be \<open>-1\<close>, which is inferred from the
  size; any other negative entry, a size that does not divide, or a product different
  from the size raises \<^verbatim>\<open>ValueError\<close>.  The elements keep their row-major order.
\<close>

definition resolve_shape :: "nat \<Rightarrow> int list \<Rightarrow> error + nat list" where
  "resolve_shape n tgt =
     (if list_ex (\<lambda>d. d < -1) tgt \<or> 1 < count_list tgt (-1) then Inl ValueError
      else if -1 \<in> set tgt then
        (let known = prod_list (map nat (filter (\<lambda>d. d \<noteq> -1) tgt))
         in if known = 0 \<or> n mod known \<noteq> 0 then Inl ValueError
            else Inr (map (\<lambda>d. if d = -1 then n div known else nat d) tgt))
      else if prod_list (map nat tgt) = n then Inr (map nat tgt)
      else Inl ValueError)"

definition np_reshape :: "'a ndarray \<Rightarrow> int list \<Rightarrow> error + 'a ndarray" where
  "np_reshape A tgt =
     (case resolve_shape (prod_list (shape A)) tgt of
        Inl e \<Rightarrow> Inl e
      | Inr sh \<Rightarrow> Inr (NDArray sh (flat A)))"

text \<open>\<^verbatim>\<open>A[..., None]\<close>: a new last axis of length one.\<close>

definition expand_last :: "'a ndarray \<Rightarrow> 'a ndarray" where
  "expand_last A = NDArray (shape A @ [1]) (flat A)"

text \<open>
  \<^verbatim>\<open>A[..., a:b, c:d]\<close> slices the last two axes, \<^verbatim>\<open>A[:, a:b, c:d]\<close> the axes 1 and 2;
  both are \<open>slice_axes\<close> at the position \<open>k\<close> of the first sliced axis.  An array with
  too few axes raises \<^verbatim>\<open>IndexError\<close>.
\<close>

definition slice_axes :: "'a ndarray \<Rightarrow> nat \<Rightarrow> int \<times> int \<Rightarrow> int \<times> int \<Rightarrow> 'a ndarray" where
  "slice_axes A k rows cols =
     (let sh = shape A;
          (r0, rl) = py_slice (sh ! k) (fst rows) (snd rows);
          (c0, cl) = py_slice (sh ! Suc k) (fst cols) (snd cols)
      in tabulate (sh[k := rl, Suc k := cl])
           (\<lambda>idx. elem A (idx[k := idx ! k + r0, Suc k := idx ! Suc k + c0])))"

definition slice_last2 :: "'a ndarray \<Rightarrow> int \<times> int \<Rightarrow> int \<times> int \<Rightarrow> error + 'a ndarray" where
  "slice_last2 A rows cols =
     (if length (shape A) < 2 then Inl IndexError
      else Inr (slice_axes A (length (shape A) - 2) rows cols))"

definition slice_axes12 :: "'a ndarray \<Rightarrow> int \<times> int \<Rightarrow> int \<times> int \<Rightarrow> error + 'a ndarray" where
  "slice_axes12 A rows cols =
     (if length (shape A) < 3 then Inl IndexError
      else Inr (slice_axes A 1 rows cols))"

text \<open>\<^verbatim>\<open>A[:, idx, ...]\<close>: position \<open>idx\<close> on axis 1, which disappears.\<close>

definition take_axis1 :: "'a ndarray \<Rightarrow> nat \<Rightarrow> error + 'a ndarray" where
  "take_axis1 A idx =
     (case shape A of
        d0 # d1 # rest \<Rightarrow>
          if idx < d1
          then Inr (tabulate (d0 # rest) (\<lambda>i. elem A (hd i # idx # tl i)))
          else Inl IndexError
      | _ \<Rightarrow> Inl IndexError)"

text \<open>
  Broadcasting: shapes are aligned at their last axes; two lengths are compatible when
  they are equal or one of them is 1.  \<open>broadcast_idx\<close> maps an index of the result to
  the index of the operand of shape \<open>sh\<close>.
\<close>

fun broadcast_rev :: "nat list \<Rightarrow> nat list \<Rightarrow> nat list option" where
  "broadcast_rev [] ys = Some ys"
| "broadcast_rev xs [] = Some xs"
| "broadcast_rev (x # xs) (y # ys) =
     (if x = y \<or> y = 1 then map_option (Cons x) (broadcast_rev xs ys)
      else if x = 1 then map_option (Cons y) (broadcast_rev xs ys)
      else None)"

definition broadcast_shape :: "nat list \<Rightarrow> nat list \<Rightarrow> nat list option" where
  "broadcast_shape s1 s2 = map_option rev (broadcast_rev (rev s1) (rev s2))"

definition broadcast_idx :: "nat list \<Rightarrow> nat list \<Rightarrow> nat list" where
  "broadcast_idx sh idx =
     map2 (\<lambda>d i. if d = 1 then 0 else i) sh (drop (length idx - length sh) idx)"

definition np_binop ::
  "('a \<Rightarrow> 'b \<Rightarrow> 'c) \<Rightarrow> 'a ndarray \<Rightarrow> 'b ndarray \<Rightarrow> error + 'c ndarray" where
  "np_binop f A B =
     (case broadcast_shape (shape A) (shape B) of
        None \<Rightarrow> Inl ValueError
      | Some S \<Rightarrow>
          Inr (tabulate S (\<lambda>idx. f (elem A (broadcast_idx (shape A) idx))
                                   (elem B (broadcast_idx (shape B) idx)))))"

text \<open>
  \<^verbatim>\<open>dX[..., a:b, c:d] += V\<close>: \<open>V\<close> is broadcast to the shape of the (clipped) slice and
  added there in place; a \<open>V\<close> that does not broadcast to that shape raises.
\<close>

definition iadd_slice_last2 ::
  "('a::plus) ndarray \<Rightarrow> int \<times> int \<Rightarrow> int \<times> int \<Rightarrow> 'a ndarray \<Rightarrow> error + 'a ndarray" where
  "iadd_slice_last2 dX rows cols V =
     (let sh = shape dX in
      if length sh < 2 then Inl IndexError
      else
        (let k = length sh - 2;
             (r0, rl) = py_slice (sh ! k) (fst rows) (snd rows);
             (c0, cl) = py_slice (sh ! Suc k) (fst cols) (snd cols);
             S = sh[k := rl, Suc k := cl]
         in if broadcast_shape S (shape V) \<noteq> Some S then Inl ValueError
            else Inr (tabulate sh (\<lambda>idx.
                   if r0 \<le> idx ! k \<and> idx ! k < r0 + rl \<and> c0 \<le> idx ! Suc k \<and> idx ! Suc k < c0 + cl
                   then elem dX idx
                        + elem V (broadcast_idx (shape V) (idx[k := idx ! k - r0, Suc k := idx ! Suc k - c0]))
                   else elem dX idx))))"

text \<open>
  Axis permutations.  \<^verbatim>\<open>moveaxis(A, 0, -1)\<close> sends the first axis to the end,
  \<^verbatim>\<open>swapaxes(A, 0, -1)\<close> exchanges the first and the last axis.  A zero-dimensional
  array has no axis 0: \<^verbatim>\<open>AxisError\<close>.
\<close>

definition moveaxis_first_to_last :: "'a ndarray \<Rightarrow> error + 'a ndarray" where
  "moveaxis_first_to_last A =
     (case shape A of
        [] \<Rightarrow> Inl AxisError
      | d # ds \<Rightarrow> Inr (tabulate (ds @ [d]) (\<lambda>idx. elem A (last idx # butlast idx))))"

definition swap_ends :: "'a list \<Rightarrow> 'a list" where
  "swap_ends xs =
     (if length xs < 2 then xs else last xs # butlast (tl xs) @ [hd xs])"

definition swapaxes_first_last :: "'a ndarray \<Rightarrow> error + 'a ndarray" where
  "swapaxes_first_last A =
     (case shape A of
        [] \<Rightarrow> Inl AxisError
      | d # ds \<Rightarrow> Inr (tabulate (swap_ends (d # ds)) (\<lambda>idx. elem A (swap_ends idx))))"

text \<open>
  \<^verbatim>\<open>np.array(tuple_of_arrays)\<close> stacks arrays of one shape along a new first axis; an
  empty tuple gives the empty one-dimensional array, and arrays of different shapes
  raise \<^verbatim>\<open>ValueError\<close> (numpy 1.24 and later).
\<close>

definition np_array :: "'a ndarray list \<Rightarrow> error + 'a ndarray" where
  "np_array As =
     (case As of
        [] \<Rightarrow> Inr (NDArray [0] [])
      | A # rest \<Rightarrow>
          if list_ex (\<lambda>B. shape B \<noteq> shape A) rest then Inl ValueError
          else Inr (NDArray (length As # shape A) (concat (map flat As))))"

text \<open>The first error of a sequence of computations, or all their results.\<close>

fun sequence :: "(error + 'a) list \<Rightarrow> error + 'a list" where
  "sequence [] = Inr []"
| "sequence (x # xs) =
     (case x of
        Inl e \<Rightarrow> Inl e
      | Inr v \<Rightarrow> (case sequence xs of Inl e \<Rightarrow> Inl e | Inr vs \<Rightarrow> Inr (v # vs)))"

section \<open>Window extraction and gradient scatter (conv\_utils.py)\<close>

text \<open>
  \<^verbatim>\<open>pad\<close> is \<^verbatim>\<open>np.pad(X, ((0, 0), (pad_H, pad_H), (pad_W, pad_W), (0, 0)))\<close>: zeros on
  both sides of the axes 1 and 2 of a four-dimensional array.  It returns one array.
\<close>

definition pad :: "('a::zero) ndarray \<Rightarrow> int \<Rightarrow> int \<Rightarrow> error + 'a ndarray" where
  "pad X pad_H pad_W =
     (case shape X of
        [c, h, w, m] \<Rightarrow>
          if pad_H < 0 \<or> pad_W < 0 then Inl ValueError
          else Inr (tabulate [c, h + 2 * nat pad_H, w + 2 * nat pad_W, m]
                 (\<lambda>idx. let i = idx ! 1; j = idx ! 2 in
                    if nat pad_H \<le> i \<and> i < nat pad_H + h \<and> nat pad_W \<le> j \<and> j < nat pad_W + w
                    then elem X [idx ! 0, i - nat pad_H, j - nat pad_W, idx ! 3]
                    else 0))
      | _ \<Rightarrow> Inl ValueError)"

text \<open>
  \<^verbatim>\<open>a, b = A\<close> on an array iterates over its first axis: it needs exactly two
  sub-arrays there, otherwise the unpacking raises \<^verbatim>\<open>ValueError\<close> (and \<^verbatim>\<open>TypeError\<close> on a
  zero-dimensional array).
\<close>

definition subarray :: "'a ndarray \<Rightarrow> nat \<Rightarrow> 'a ndarray" where
  "subarray A i =
     (let n = prod_list (tl (shape A))
      in NDArray (tl (shape A)) (take n (drop (i * n) (flat A))))"

definition unpack2 :: "'a ndarray \<Rightarrow> error + 'a ndarray \<times> 'a ndarray" where
  "unpack2 A =
     (case shape A of
        [] \<Rightarrow> Inl TypeError
      | d # ds \<Rightarrow> if d = 2 then Inr (subarray A 0, subarray A 1) else Inl ValueError)"

text \<open>
  \<^verbatim>\<open>((i * sH, j * sW) for i in range(oH) for j in range(oW))\<close>: the window origins in
  row-major order; a non-positive bound gives an empty range.
\<close>

definition slice_idx_generator :: "int \<Rightarrow> int \<Rightarrow> int \<Rightarrow> int \<Rightarrow> (int \<times> int) list" where
  "slice_idx_generator oH oW sH sW =
     concat (map (\<lambda>i. map (\<lambda>j. (int i * sH, int j * sW)) [0..<nat oW]) [0..<nat oH])"

definition vectorize_ip_for_conv ::
  "'a ndarray \<Rightarrow> int \<times> int \<Rightarrow> int \<times> int \<Rightarrow> int \<times> int \<Rightarrow> int list option \<Rightarrow> error + 'a ndarray" where
  "vectorize_ip_for_conv X kernel_size stride output_size reshape =
     (case stride of (sH, sW) \<Rightarrow>
      case kernel_size of (kH, kW) \<Rightarrow>
      case output_size of (oH, oW) \<Rightarrow>
        let indices = slice_idx_generator oH oW sH sW in
        case (case reshape of
                None \<Rightarrow> (case py_index (shape X) (-1) of
                             Inl e \<Rightarrow> Inl e
                           | Inr m \<Rightarrow> Inr [-1, int m])
              | Some r \<Rightarrow> Inr r) of
          Inl e \<Rightarrow> Inl e
        | Inr reshape' \<Rightarrow>
            (case sequence (map (\<lambda>(i, j).
                     case slice_axes12 X (i, i + kH) (j, j + kW) of
                       Inl e \<Rightarrow> Inl e
                     | Inr W \<Rightarrow> np_reshape W reshape') indices) of
               Inl e \<Rightarrow> Inl e
             | Inr ws \<Rightarrow> np_array ws))"

text \<open>
  \<^verbatim>\<open>_prepare_ip_for_conv\<close>.  \<^verbatim>\<open>ipH, ipW = X.shape[1:-1]\<close> needs a four-dimensional
  input.  With a padding other than \<open>(0, 0)\<close> the source runs \<^verbatim>\<open>X, _ = pad(X, pH, pW)\<close>,
  the unpacking of the single array that \<^verbatim>\<open>pad\<close> returns.
\<close>

definition prepare_ip_for_conv ::
  "('a::zero) ndarray \<Rightarrow> int \<times> int \<Rightarrow> int \<times> int \<Rightarrow> int \<times> int \<Rightarrow> int list option
     \<Rightarrow> error + 'a ndarray \<times> int \<times> int" where
  "prepare_ip_for_conv X kernel_size stride padding vec_reshape =
     (case shape X of
        [c, ipH, ipW, m] \<Rightarrow>
          (case kernel_size of (kH, kW) \<Rightarrow>
           case stride of (sH, sW) \<Rightarrow>
           case padding of (pH, pW) \<Rightarrow>
           case compute_conv_output_dim (int ipH) kH pH sH of
             Inl e \<Rightarrow> Inl e
           | Inr oH \<Rightarrow>
           case compute_conv_output_dim (int ipW) kW pW sW of
             Inl e \<Rightarrow> Inl e
           | Inr oW \<Rightarrow>
           case (if padding \<noteq> (0, 0)
                 then (case pad X pH pW of
                         Inl e \<Rightarrow> Inl e
                       | Inr P \<Rightarrow> (case unpack2 P of Inl e \<Rightarrow> Inl e | Inr (X', _) \<Rightarrow> Inr X'))
                 else Inr X) of
             Inl e \<Rightarrow> Inl e
           | Inr X' \<Rightarrow>
           case vectorize_ip_for_conv X' (kH, kW) stride (oH, oW) vec_reshape of
             Inl e \<Rightarrow> Inl e
           | Inr V \<Rightarrow> Inr (V, oH, oW))
      | _ \<Rightarrow> Inl ValueError)"

text \<open>
  \<^verbatim>\<open>accumulate_dX_conv\<close>.  \<open>window_grad\<close> is \<^verbatim>\<open>dIp[:, idx, ...].reshape(*reshape)\<close>, the
  gradient contribution of window \<open>idx\<close>; \<open>accumulate_loop\<close> is the \<^verbatim>\<open>for\<close> loop over
  \<^verbatim>\<open>enumerate(slice_idx)\<close>, which adds each contribution into its window of \<open>dX\<close>
  (the augmented assignment reads \<^verbatim>\<open>dX[..., a:b, c:d]\<close> before it evaluates its right side);
  then the padding is cut off with \<^verbatim>\<open>dX[..., pH:-pH, pW:-pW]\<close> and the first axis is
  moved to the end.
\<close>

definition window_grad :: "'a ndarray \<Rightarrow> nat \<Rightarrow> int list \<Rightarrow> error + 'a ndarray" where
  "window_grad dIp idx reshape =
     (case take_axis1 dIp idx of
        Inl e \<Rightarrow> Inl e
      | Inr W \<Rightarrow> np_reshape W reshape)"

fun accumulate_loop ::
  "('a::plus) ndarray \<Rightarrow> 'a ndarray \<Rightarrow> int \<times> int \<Rightarrow> int list \<Rightarrow> (nat \<times> int \<times> int) list
     \<Rightarrow> error + 'a ndarray" where
  "accumulate_loop dX dIp kernel_size reshape [] = Inr dX"
| "accumulate_loop dX dIp kernel_size reshape ((idx, start_r, start_c) # rest) =
     (let end_r = start_r + fst kernel_size; end_c = start_c + snd kernel_size in
      if length (shape dX) < 2 then Inl IndexError
      else
        (case window_grad dIp idx reshape of
           Inl e \<Rightarrow> Inl e
         | Inr V \<Rightarrow>
             (case iadd_slice_last2 dX (start_r, end_r) (start_c, end_c) V of
                Inl e \<Rightarrow> Inl e
              | Inr dX' \<Rightarrow> accumulate_loop dX' dIp kernel_size reshape rest)))"

definition accumulate_dX_conv ::
  "nat list \<Rightarrow> int \<times> int \<Rightarrow> ('a::{zero,plus}) ndarray \<Rightarrow> int \<times> int \<Rightarrow> int \<times> int \<Rightarrow> int list
     \<Rightarrow> int \<times> int \<Rightarrow> bool \<Rightarrow> error + 'a ndarray" where
  "accumulate_dX_conv dX_shape output_size dIp stride kernel_size reshape padding moveaxis =
     (case stride of (sH, sW) \<Rightarrow>
        let dX = np_zeros dX_shape;
            slice_idx = slice_idx_generator (fst output_size) (snd output_size) sH sW
        in case accumulate_loop dX dIp kernel_size reshape (enumerate 0 slice_idx) of
             Inl e \<Rightarrow> Inl e
           | Inr dX \<Rightarrow>
               (case (if padding \<noteq> (0, 0)
                      then (case padding of (pH, pW) \<Rightarrow> slice_last2 dX (pH, - pH) (pW, - pW))
                      else Inr dX) of
                  Inl e \<Rightarrow> Inl e
                | Inr dX \<Rightarrow> if \<not> moveaxis then Inr dX else moveaxis_first_to_last dX))"



section \<open>Pooling layers (maxpool2d.py, avgpool2d.py)\<close>

text \<open>
  The layer object is a record of its attributes.  \<open>dX_share\<close> holds what
  \<^verbatim>\<open>_get_pool_outputs\<close> returns second: the boolean mask of max pooling or the constant
  distribution tensor of average pooling.  The input shape and \<^verbatim>\<open>requires_dX\<close> come from
  the base layer class, which is not part of the sources at hand, so the constructor
  takes them as arguments; \<^verbatim>\<open>reset_attrs\<close> sets the attributes listed in the class
  attribute \<^verbatim>\<open>reset\<close> back to \<^verbatim>\<open>None\<close>.
\<close>

datatype 'a share = Mask "bool ndarray" | Distributed "'a ndarray"

record 'a MaxPooling2D =
  pool_size :: "int \<times> int"
  stride :: "int \<times> int"
  padding :: string
  p_H :: int
  p_W :: int
  windows :: nat
  ip_H :: nat
  ip_W :: nat
  out_H :: int
  out_W :: int
  pooled :: "'a ndarray option"
  padded_shape :: "nat list option"
  dX_share :: "'a share option"
  requires_dX :: bool

definition MaxPooling2D_init ::
  "nat list \<Rightarrow> bool \<Rightarrow> int \<times> int \<Rightarrow> int \<times> int \<Rightarrow> string \<Rightarrow> error + 'a MaxPooling2D" where
  "MaxPooling2D_init input_shape req pool_size0 stride0 padding0 =
     (case compute_conv_padding pool_size0 padding0 of (pH, pW) \<Rightarrow>
      case butlast input_shape of
        [c, h, w] \<Rightarrow>
          (case compute_conv_output_dim (int h) (fst pool_size0) pH (fst stride0) of
             Inl e \<Rightarrow> Inl e
           | Inr oH \<Rightarrow>
           case compute_conv_output_dim (int w) (snd pool_size0) pW (snd stride0) of
             Inl e \<Rightarrow> Inl e
           | Inr oW \<Rightarrow>
             Inr \<lparr>pool_size = pool_size0, stride = stride0, padding = padding0,
                  p_H = pH, p_W = pW, windows = c, ip_H = h, ip_W = w,
                  out_H = oH, out_W = oW, pooled = None, padded_shape = None,
                  dX_share = None, requires_dX = req\<rparr>)
      | _ \<Rightarrow> Inl ValueError)"

text \<open>
  Modelled from the spec: \<^verbatim>\<open>reset_attrs\<close> is a method of the base layer class; the
  retained tensors of a layer are cleared once the backward pass has consumed them.
  Here these are the attributes named in \<^verbatim>\<open>MaxPooling2D.reset\<close>.
\<close>

definition reset_attrs :: "'a MaxPooling2D \<Rightarrow> 'a MaxPooling2D" where
  "reset_attrs L = L\<lparr>pooled := None, dX_share := None\<rparr>"

text \<open>
  \<^verbatim>\<open>np.argmax\<close> returns the first position of the maximum.  \<open>rows_of\<close> is the view
  \<^verbatim>\<open>ip.reshape(-1, p_area)\<close>: the flat elements cut into rows of length \<open>p_area\<close>.
  \<^verbatim>\<open>argmax\<close> over an empty window raises; the mean over an empty window is NaN in numpy
  and \<open>0\<close> here (division by zero in a field), a case no claim below touches.
\<close>

fun argmax_first :: "('a::linorder) list \<Rightarrow> nat" where
  "argmax_first [] = 0"
| "argmax_first (x # xs) =
     (let k = argmax_first xs in if xs \<noteq> [] \<and> x < xs ! k then Suc k else 0)"

definition rows_of :: "'a ndarray \<Rightarrow> 'a list list" where
  "rows_of ip =
     (let p_area = last (shape ip)
      in map (\<lambda>r. take p_area (drop (r * p_area) (flat ip)))
           [0..<prod_list (butlast (shape ip))])"

definition MaxPooling2D_get_pool_outputs ::
  "('a::linorder) MaxPooling2D \<Rightarrow> 'a ndarray \<Rightarrow> error + 'a ndarray \<times> 'a share" where
  "MaxPooling2D_get_pool_outputs L ip =
     (let ip_shape = shape ip in
      if ip_shape = [] then Inl IndexError
      else
        (let p_area = last ip_shape in
         if p_area = 0 then Inl ValueError
         else
           (let max_idx = map argmax_first (rows_of ip);
                maximums = NDArray (butlast ip_shape) (map2 (\<lambda>row k. row ! k) (rows_of ip) max_idx);
                mask = NDArray ip_shape (concat (map (\<lambda>k. map (\<lambda>j. j = k) [0..<p_area]) max_idx))
            in case swapaxes_first_last maximums of
                 Inl e \<Rightarrow> Inl e
               | Inr sw \<Rightarrow>
                   (case np_reshape sw [int (windows L), out_H L, out_W L, -1] of
                      Inl e \<Rightarrow> Inl e
                    | Inr out \<Rightarrow> Inr (out, Mask mask)))))"

definition AveragePooling2D_get_pool_outputs ::
  "('a::field) MaxPooling2D \<Rightarrow> 'a ndarray \<Rightarrow> error + 'a ndarray \<times> 'a share" where
  "AveragePooling2D_get_pool_outputs L ip =
     (let ip_shape = shape ip in
      if ip_shape = [] then Inl AxisError
      else
        (let p_area = last ip_shape;
             averages = NDArray (butlast ip_shape)
                          (map (\<lambda>row. sum_list row / of_nat p_area) (rows_of ip));
             distributed = NDArray [1, 1, 1, p_area] (replicate p_area (1 / of_nat p_area))
         in case swapaxes_first_last averages of
              Inl e \<Rightarrow> Inl e
            | Inr sw \<Rightarrow>
                (case np_reshape sw [int (windows L), out_H L, out_W L, -1] of
                   Inl e \<Rightarrow> Inl e
                 | Inr out \<Rightarrow> Inr (out, Distributed distributed))))"

text \<open>
  \<^verbatim>\<open>backprop_step\<close>, shared by both pooling layers.  \<open>reshape_dA\<close> is its first line,
  \<open>share_times\<close> the product \<^verbatim>\<open>self._dX_share * dA[..., None]\<close> (a boolean mask counts as
  0 and 1).  The result is the returned gradient (\<^verbatim>\<open>None\<close> when no input gradient is
  required) and the layer after \<^verbatim>\<open>reset_attrs\<close>.
\<close>

definition reshape_dA :: "'a ndarray \<Rightarrow> nat \<Rightarrow> error + 'a ndarray" where
  "reshape_dA dA wnd =
     (case swapaxes_first_last dA of
        Inl e \<Rightarrow> Inl e
      | Inr sw \<Rightarrow> np_reshape sw [int (last (shape dA)), -1, int wnd])"

fun share_times :: "('a::semiring_1) share \<Rightarrow> 'a ndarray \<Rightarrow> error + 'a ndarray" where
  "share_times (Mask m) G = np_binop (\<lambda>b g. of_bool b * g) m G"
| "share_times (Distributed d) G = np_binop (\<lambda>x g. x * g) d G"

definition backprop_step ::
  "('a::semiring_1) MaxPooling2D \<Rightarrow> 'a ndarray \<Rightarrow> error + 'a ndarray option \<times> 'a MaxPooling2D" where
  "backprop_step L dA0 =
     (case reshape_dA dA0 (windows L) of
        Inl e \<Rightarrow> Inl e
      | Inr dA \<Rightarrow>
          if \<not> requires_dX L then Inr (None, reset_attrs L)
          else
            (case padded_shape L of
               None \<Rightarrow> Inl TypeError
             | Some ps \<Rightarrow>
            (case dX_share L of
               None \<Rightarrow> Inl TypeError
             | Some sh \<Rightarrow>
            (case share_times sh (expand_last dA) of
               Inl e \<Rightarrow> Inl e
             | Inr dIp \<Rightarrow>
            (case accumulate_dX_conv (hd (shape dA) # windows L # ps) (out_H L, out_W L) dIp
                    (stride L) (pool_size L)
                    [-1, int (windows L), fst (pool_size L), snd (pool_size L)]
                    (p_H L, p_W L) True of
               Inl e \<Rightarrow> Inl e
             | Inr dX \<Rightarrow> Inr (Some dX, reset_attrs L))))))"

text \<open>
  The window \<open>w\<close> of channel \<open>c\<close> and batch element \<open>b\<close>, as the list of its
  elements in flattened scan order, read from the argument of \<^verbatim>\<open>_get_pool_outputs\<close>
  (axes: batch, window, channel, position in the window).
\<close>

definition window_of :: "'a ndarray \<Rightarrow> nat \<Rightarrow> nat \<Rightarrow> nat \<Rightarrow> 'a list" where
  "window_of ip b w c = map (\<lambda>k. elem ip [b, w, c, k]) [0..<last (shape ip)]"

section \<open>Concatenation layer (concatenate.py)\<close>

text \<open>
  \<open>normalize_axis\<close> is numpy's reading of an axis argument on an array with \<open>nd\<close> axes:
  \<open>-nd \<le> axis < nd\<close>, a negative axis counting from the end.  \<open>np_concatenate\<close> needs
  at least one array, equal numbers of axes and equal lengths on every axis but the
  given one.  \<open>np_split\<close> cuts at \<^verbatim>\<open>[0] + indices + [Ntotal]\<close> with Python slices along
  the axis (numpy reads \<^verbatim>\<open>ary.shape[axis]\<close>, swaps the axis to the front, slices, and
  swaps back).
\<close>

definition normalize_axis :: "int \<Rightarrow> nat \<Rightarrow> nat option" where
  "normalize_axis ax nd =
     (if - int nd \<le> ax \<and> ax < int nd
      then Some (nat (if ax < 0 then ax + int nd else ax))
      else None)"

definition concat2 :: "nat \<Rightarrow> 'a ndarray \<Rightarrow> 'a ndarray \<Rightarrow> 'a ndarray" where
  "concat2 k A B =
     tabulate ((shape A)[k := shape A ! k + shape B ! k])
       (\<lambda>idx. if idx ! k < shape A ! k then elem A idx
              else elem B (idx[k := idx ! k - shape A ! k]))"

definition np_concatenate :: "'a ndarray list \<Rightarrow> int \<Rightarrow> error + 'a ndarray" where
  "np_concatenate As ax =
     (case As of
        [] \<Rightarrow> Inl ValueError
      | A # rest \<Rightarrow>
          if shape A = [] \<or> list_ex (\<lambda>B. length (shape B) \<noteq> length (shape A)) rest
          then Inl ValueError
          else
            (case normalize_axis ax (length (shape A)) of
               None \<Rightarrow> Inl AxisError
             | Some k \<Rightarrow>
                 if list_ex (\<lambda>B. (shape B)[k := 0] \<noteq> (shape A)[k := 0]) rest
                 then Inl ValueError
                 else Inr (foldl (concat2 k) A rest)))"

definition slice_axis :: "'a ndarray \<Rightarrow> nat \<Rightarrow> int \<Rightarrow> int \<Rightarrow> 'a ndarray" where
  "slice_axis A k a b =
     (let sh = shape A; (lo, n) = py_slice (sh ! k) a b
      in tabulate (sh[k := n]) (\<lambda>idx. elem A (idx[k := idx ! k + lo])))"

definition np_split :: "'a ndarray \<Rightarrow> int list \<Rightarrow> int \<Rightarrow> error + 'a ndarray list" where
  "np_split ary indices ax =
     (case py_index (shape ary) ax of
        Inl e \<Rightarrow> Inl e
      | Inr Ntotal \<Rightarrow>
          (case normalize_axis ax (length (shape ary)) of
             None \<Rightarrow> Inl AxisError
           | Some k \<Rightarrow>
               (let div_points = [0] @ indices @ [int Ntotal]
                in Inr (map (\<lambda>(st, en). slice_axis ary k st en)
                          (zip div_points (tl div_points))))))"

text \<open>
  The layer.  \<^verbatim>\<open>input()\<close> and \<^verbatim>\<open>input_shape()\<close> belong to the base class
  \<^verbatim>\<open>MultiInputBaseLayer\<close>, which is not part of the sources at hand: the record holds
  the arrays the input layers deliver, and \<open>input_shape\<close> is the list of their shapes.
  The axis is a Python integer.  Every method returns the layer as well, so that what
  an exception leaves behind is visible.
\<close>

record 'a Concatenate =
  inputs :: "'a ndarray list"
  axis :: int
  concatenated :: "'a ndarray option"

text \<open>
  Modelled from the spec: \<^verbatim>\<open>input_shape()\<close> is a method of \<^verbatim>\<open>MultiInputBaseLayer\<close>; on a
  forward call it is the shapes of the input tensors, in input order.
\<close>

definition input_shape :: "'a Concatenate \<Rightarrow> nat list list" where
  "input_shape L = map shape (inputs L)"

text \<open>
  \<^verbatim>\<open>tuple(dim for i, dim in enumerate(shape) if i != axis)\<close>: the position \<open>i\<close> runs
  from 0, and is compared with the axis as it was given.
\<close>

definition get_axis_excluded_shapes :: "'a Concatenate \<Rightarrow> int \<Rightarrow> nat list list" where
  "get_axis_excluded_shapes L ax =
     map (\<lambda>sh. map snd (filter (\<lambda>(i, dm). int i \<noteq> ax) (enumerate 0 sh))) (input_shape L)"

definition validate_same_shape :: "'a Concatenate \<Rightarrow> int \<Rightarrow> error + unit" where
  "validate_same_shape L ax =
     (case get_axis_excluded_shapes L ax of
        [] \<Rightarrow> Inl StopIteration
      | first_shape # shapes \<Rightarrow>
          if list_ex (\<lambda>sh. sh \<noteq> first_shape) shapes
          then Inl (ShapeMismatch first_shape)
          else Inr ())"

definition forward_step :: "'a Concatenate \<Rightarrow> (error + 'a ndarray) \<times> 'a Concatenate" where
  "forward_step L =
     (case validate_same_shape L (axis L) of
        Inl e \<Rightarrow> (Inl e, L)
      | Inr _ \<Rightarrow>
          (case np_concatenate (inputs L) (axis L) of
             Inl e \<Rightarrow> (Inl e, L)
           | Inr c \<Rightarrow> (Inr c, L\<lparr>concatenated := Some c\<rparr>)))"

text \<open>
  \<^verbatim>\<open>_split_indices\<close>: the running sum of the lengths along the axis, over all inputs
  but the last.
\<close>

fun running_sums :: "int \<Rightarrow> nat list list \<Rightarrow> int \<Rightarrow> error + int list" where
  "running_sums running_sum [] ax = Inr []"
| "running_sums running_sum (sh # shapes) ax =
     (case py_index sh ax of
        Inl e \<Rightarrow> Inl e
      | Inr dm \<Rightarrow>
          (case running_sums (running_sum + int dm) shapes ax of
             Inl e \<Rightarrow> Inl e
           | Inr indices \<Rightarrow> Inr ((running_sum + int dm) # indices)))"

definition split_indices :: "'a Concatenate \<Rightarrow> error + int list" where
  "split_indices L =
     (case input_shape L of
        [] \<Rightarrow> Inl IndexError
      | sh0 # shapes \<Rightarrow>
          (case py_index sh0 (axis L) of
             Inl e \<Rightarrow> Inl e
           | Inr d0 \<Rightarrow>
               (case running_sums (int d0) (butlast shapes) (axis L) of
                  Inl e \<Rightarrow> Inl e
                | Inr indices \<Rightarrow> Inr (int d0 # indices))))"

definition backprop_inputs :: "'a Concatenate \<Rightarrow> 'a ndarray \<Rightarrow> error + 'a ndarray list" where
  "backprop_inputs L grad =
     (case split_indices L of
        Inl e \<Rightarrow> Inl e
      | Inr indices \<Rightarrow> np_split grad indices (axis L))"

section \<open>Arithmetic facts\<close>


lemma py_int_quotient_succ:
  assumes "0 \<le> a" and "0 < s"
  shows "py_int (of_int a / of_int s + 1) = a div s + 1"
proof -
  have nonneg: "(0::rat) \<le> of_int a / of_int s + 1"
    using assms by simp
  have "\<lfloor>(of_int a :: rat) / of_int s + 1\<rfloor> = \<lfloor>(of_int a :: rat) / of_int s\<rfloor> + 1"
    by simp
  also have "\<dots> = a div s + 1"
    by (simp add: floor_divide_of_int_eq)
  finally show ?thesis using nonneg by (simp add: py_int_def)
qed


lemma compute_conv_output_dim_div:
  assumes "0 < s" and "f \<le> n + 2 * p"
  shows "compute_conv_output_dim n f p s = Inr ((n - f + 2 * p) div s + 1)"
  using assms py_int_quotient_succ [of "n - f + 2 * p" s]
  by (simp add: compute_conv_output_dim_def)

section \<open>Facts about arrays\<close>

lemma valid_idx_Nil [simp]: "valid_idx [] idx \<longleftrightarrow> idx = []"
  by (simp add: valid_idx_def)

lemma valid_idx_Cons:
  "valid_idx (d # ds) idx \<longleftrightarrow> (\<exists>i is. idx = i # is \<and> i < d \<and> valid_idx ds is)"
  by (cases idx) (simp_all add: valid_idx_def)

lemma valid_idx_Cons_Cons [simp]:
  "valid_idx (d # ds) (i # is) \<longleftrightarrow> i < d \<and> valid_idx ds is"
  by (simp add: valid_idx_def)

lemma valid_idx_length: "valid_idx sh idx \<Longrightarrow> length idx = length sh"
  by (simp add: valid_idx_def list_all2_lengthD)

lemma valid_idx_nth: "valid_idx sh idx \<Longrightarrow> i < length sh \<Longrightarrow> idx ! i < sh ! i"
  by (simp add: valid_idx_def list_all2_nthD2)

lemma valid_idx_iff:
  "valid_idx sh idx \<longleftrightarrow> length idx = length sh \<and> (\<forall>i<length sh. idx ! i < sh ! i)"
  by (auto simp: valid_idx_def list_all2_conv_all_nth)

lemma ravel_less: "valid_idx sh idx \<Longrightarrow> ravel sh idx < prod_list sh"
proof (induction sh arbitrary: idx)
  case Nil
  then show ?case by simp
next
  case (Cons d ds)
  then obtain i "is" where idx: "idx = i # is" and i: "i < d" and v: "valid_idx ds is"
    by (auto simp: valid_idx_Cons)
  have r: "ravel ds is < prod_list ds" using Cons.IH v by blast
  have "i * prod_list ds + ravel ds is < Suc i * prod_list ds" using r by simp
  also have "\<dots> \<le> d * prod_list ds" using i by (intro mult_le_mono1) simp
  finally show ?case by (simp add: idx)
qed

lemma unravel_ravel: "valid_idx sh idx \<Longrightarrow> unravel sh (ravel sh idx) = idx"
proof (induction sh arbitrary: idx)
  case Nil
  then show ?case by simp
next
  case (Cons d ds)
  then obtain i "is" where idx: "idx = i # is" and i: "i < d" and v: "valid_idx ds is"
    by (auto simp: valid_idx_Cons)
  have r: "ravel ds is < prod_list ds" using v by (rule ravel_less)
  show ?case using Cons.IH [OF v] r by (simp add: idx)
qed

lemma valid_unravel: "k < prod_list sh \<Longrightarrow> valid_idx sh (unravel sh k)"
proof (induction sh arbitrary: k)
  case Nil
  then show ?case by simp
next
  case (Cons d ds)
  have pos: "0 < prod_list ds" using Cons.prems by (cases "prod_list ds") simp_all
  have "k div prod_list ds < d"
    using Cons.prems pos by (simp add: less_mult_imp_div_less mult.commute)
  moreover have "valid_idx ds (unravel ds (k mod prod_list ds))"
    using Cons.IH pos by simp
  ultimately show ?case by simp
qed

lemma ravel_unravel: "k < prod_list sh \<Longrightarrow> ravel sh (unravel sh k) = k"
proof (induction sh arbitrary: k)
  case Nil
  then show ?case by simp
next
  case (Cons d ds)
  have pos: "0 < prod_list ds" using Cons.prems by (cases "prod_list ds") simp_all
  show ?case using Cons.IH [of "k mod prod_list ds"] pos by simp
qed

lemma shape_tabulate [simp]: "shape (tabulate sh f) = sh"
  by (simp add: tabulate_def)

lemma wf_tabulate [simp]: "wf_array (tabulate sh f)"
  by (simp add: tabulate_def wf_array_def)

lemma elem_tabulate: "valid_idx sh idx \<Longrightarrow> elem (tabulate sh f) idx = f idx"
  using ravel_less [of sh idx] unravel_ravel [of sh idx]
  by (simp add: elem_def tabulate_def)

lemma ndarray_eqI:
  assumes "wf_array A" and "wf_array B" and "shape A = shape B"
    and "\<And>idx. valid_idx (shape A) idx \<Longrightarrow> elem A idx = elem B idx"
  shows "A = B"
proof -
  have len: "length (flat A) = length (flat B)"
    using assms(1-3) by (simp add: wf_array_def)
  have "flat A ! k = flat B ! k" if "k < length (flat A)" for k
  proof -
    have k: "k < prod_list (shape A)" using that assms(1) by (simp add: wf_array_def)
    have "elem A (unravel (shape A) k) = elem B (unravel (shape A) k)"
      using assms(4) valid_unravel [OF k] by blast
    then show ?thesis using ravel_unravel [OF k] assms(3) by (simp add: elem_def)
  qed
  then have "flat A = flat B" using len by (simp add: list_eq_iff_nth_eq)
  then show ?thesis using assms(3) by (simp add: ndarray.expand)
qed

lemma tabulate_elem: "wf_array A \<Longrightarrow> tabulate (shape A) (elem A) = A"
  by (rule ndarray_eqI) (simp_all add: elem_tabulate)

lemma valid_idx_append:
  "length i1 = length s1 \<Longrightarrow> valid_idx (s1 @ s2) (i1 @ i2) \<longleftrightarrow> valid_idx s1 i1 \<and> valid_idx s2 i2"
  by (simp add: valid_idx_def list_all2_append)

lemma valid_idx_appendE:
  assumes "valid_idx (s1 @ s2) idx"
  obtains i1 i2 where "idx = i1 @ i2" "valid_idx s1 i1" "valid_idx s2 i2"
  using assms unfolding valid_idx_def by (auto simp: list_all2_append2)

lemma ravel_append:
  "length i1 = length s1 \<Longrightarrow> ravel (s1 @ s2) (i1 @ i2) = ravel s1 i1 * prod_list s2 + ravel s2 i2"
proof (induction s1 arbitrary: i1)
  case Nil
  then show ?case by simp
next
  case (Cons d ds)
  then obtain i "is" where "i1 = i # is" "length is = length ds" by (cases i1) auto
  then show ?case using Cons.IH [of "is"] by (simp add: algebra_simps)
qed

subsection \<open>Slices and broadcasting inside the bounds\<close>




lemma broadcast_idx_same: "valid_idx sh idx \<Longrightarrow> broadcast_idx sh idx = idx"
proof -
  assume v: "valid_idx sh idx"
  then have len: "length idx = length sh" by (rule valid_idx_length)
  have "map2 (\<lambda>d i. if d = 1 then 0 else i) sh idx = idx"
  proof (rule nth_equalityI)
    show "length (map2 (\<lambda>d i. if d = 1 then 0 else i) sh idx) = length idx"
      using len by simp
  next
    fix i assume "i < length (map2 (\<lambda>d i. if d = 1 then 0 else i) sh idx)"
    then have i: "i < length sh" using len by simp
    then have "idx ! i < sh ! i" using v by (rule valid_idx_nth [rotated])
    then show "map2 (\<lambda>d i. if d = 1 then 0 else i) sh idx ! i = idx ! i"
      using i len by auto
  qed
  then show ?thesis using len by (simp add: broadcast_idx_def)
qed

lemma update_last2:
  "length ip = k \<Longrightarrow> (ip @ [y, x])[k := a, Suc k := b] = ip @ [a, b]"
  by (simp add: list_update_append)

lemma nth_last2:
  "length ip = k \<Longrightarrow> (ip @ [y, x]) ! k = y" "length ip = k \<Longrightarrow> (ip @ [y, x]) ! Suc k = x"
  by (simp_all add: nth_append)

lemma valid_idx_last2:
  "valid_idx (pre @ [h, w]) idx \<longleftrightarrow> (\<exists>ip y x. idx = ip @ [y, x] \<and> valid_idx pre ip \<and> y < h \<and> x < w)"
proof
  assume "valid_idx (pre @ [h, w]) idx"
  then obtain i1 i2 where idx: "idx = i1 @ i2" and v1: "valid_idx pre i1" and v2: "valid_idx [h, w] i2"
    by (rule valid_idx_appendE)
  from v2 obtain y x where "i2 = [y, x]" "y < h" "x < w"
    by (auto simp: valid_idx_Cons)
  then show "\<exists>ip y x. idx = ip @ [y, x] \<and> valid_idx pre ip \<and> y < h \<and> x < w"
    using idx v1 by blast
next
  assume "\<exists>ip y x. idx = ip @ [y, x] \<and> valid_idx pre ip \<and> y < h \<and> x < w"
  then show "valid_idx (pre @ [h, w]) idx"
    by (auto simp: valid_idx_append valid_idx_length)
qed




section \<open>Claims on the shape arithmetic\<close>






text \<open>
  C9, as stated: a padding mode that is neither \<^verbatim>\<open>valid\<close> nor \<^verbatim>\<open>same\<close> is rejected when
  the layer is constructed.  It is not: the pooling layer is constructed with the mode
  \<^verbatim>\<open>full\<close>, with the padding \<open>(0, 0)\<close>.
\<close>

theorem C9_invalid_mode_counterexample:
  "(MaxPooling2D_init [1, 4, 4, 1] True (2, 2) (2, 2) ''full'' :: error + rat MaxPooling2D)
     = Inr \<lparr>pool_size = (2, 2), stride = (2, 2), padding = ''full'', p_H = 0, p_W = 0,
            windows = 1, ip_H = 4, ip_W = 4, out_H = 2, out_W = 2, pooled = None,
            padded_shape = None, dX_share = None, requires_dX = True\<rparr>"
  by (simp add: MaxPooling2D_init_def compute_conv_padding_def compute_conv_output_dim_div)

text \<open>
  C9, amended: for every padding mode other than \<^verbatim>\<open>same\<close>, also one that is neither
  \<^verbatim>\<open>valid\<close> nor \<^verbatim>\<open>same\<close>, \<open>compute_conv_padding\<close> returns \<open>(0, 0)\<close> as it does for
  \<^verbatim>\<open>valid\<close>, and constructing the pooling layer gives what \<^verbatim>\<open>valid\<close> gives, up to the
  stored mode string; nothing is rejected because of the mode.
\<close>

theorem C9_unknown_mode_is_valid:
  assumes "mode \<noteq> ''same''"
  shows "compute_conv_padding ks mode = (0, 0)
    \<and> compute_conv_padding ks mode = compute_conv_padding ks ''valid''
    \<and> (MaxPooling2D_init sh req ks st mode :: error + 'a MaxPooling2D)
        = map_sum id (\<lambda>L. L\<lparr>padding := mode\<rparr>) (MaxPooling2D_init sh req ks st ''valid'')"
  using assms
  by (simp add: compute_conv_padding_def MaxPooling2D_init_def
           split: list.splits sum.splits)

theorem C9_unknown_mode_is_valid_witness:
  "''full'' \<noteq> ''same''
   \<and> compute_conv_padding (3, 3) ''full'' = (0, 0)
   \<and> compute_conv_padding (3, 3) ''full'' = compute_conv_padding (3, 3) ''valid''
   \<and> (MaxPooling2D_init [1, 4, 4, 1] True (3, 3) (1, 1) ''full'' :: error + rat MaxPooling2D)
        = map_sum id (\<lambda>L. L\<lparr>padding := ''full''\<rparr>)
            (MaxPooling2D_init [1, 4, 4, 1] True (3, 3) (1, 1) ''valid'')"
  using C9_unknown_mode_is_valid [of "''full''" "(3, 3)" "[1, 4, 4, 1]" True "(1, 1)"]
  by simp

section \<open>Claims on the preparation of the convolution input\<close>

text \<open>
  With a padding other than \<open>(0, 0)\<close> the unpacking \<^verbatim>\<open>X, _ = pad(X, pH, pW)\<close> iterates
  over the channel axis of the one array \<^verbatim>\<open>pad\<close> returns, so it raises unless there are
  exactly two channels.
\<close>

lemma prepare_ip_for_conv_unpack_raises:
  fixes X :: "('a::zero) ndarray"
  assumes "shape X = [c, h, w, m]" and "c \<noteq> 2" and "(pH, pW) \<noteq> (0, 0)"
    and "0 \<le> pH" and "0 \<le> pW" and "sH \<noteq> 0" and "sW \<noteq> 0"
  shows "prepare_ip_for_conv X (kH, kW) (sH, sW) (pH, pW) r = Inl ValueError"
  using assms
  by (simp add: prepare_ip_for_conv_def compute_conv_output_dim_def pad_def unpack2_def)

text \<open>
  C2 (the code departs from the claim).  The claim: for any positive number of channels
  and a padding other than \<open>(0, 0)\<close>, \<^verbatim>\<open>_prepare_ip_for_conv\<close> pads, extracts the windows
  and completes without raising.  On a one-channel \<open>3 \<times> 3\<close> input with kernel \<open>(2, 2)\<close>,
  stride \<open>(1, 1)\<close> and padding \<open>(1, 1)\<close> it raises \<^verbatim>\<open>ValueError\<close>.
\<close>

theorem C2_prepare_raises_on_one_channel:
  "prepare_ip_for_conv (NDArray [1, 3, 3, 1] [1, 2, 3, 4, 5, 6, 7, 8, 9 :: int])
     (2, 2) (1, 1) (1, 1) None = Inl ValueError"
  by (simp add: prepare_ip_for_conv_def compute_conv_output_dim_div pad_def unpack2_def)

text \<open>The same input without padding goes through: four windows of four elements.\<close>

lemma prepare_ip_for_conv_unpadded_example:
  "prepare_ip_for_conv (NDArray [1, 3, 3, 1] [1, 2, 3, 4, 5, 6, 7, 8, 9 :: int])
     (2, 2) (1, 1) (0, 0) None
   = Inr (NDArray [4, 4, 1] [1, 2, 4, 5, 2, 3, 5, 6, 4, 5, 7, 8, 5, 6, 8, 9], 2, 2)"
  by code_simp

section \<open>The scatter loop\<close>






section \<open>Claims on the gradient scatter\<close>



subsection \<open>Stripping the padding\<close>

lemma py_slice_strip: "0 < p \<Longrightarrow> py_slice n p (- p) = (min n (nat p), n - 2 * nat p)"
  by (auto simp: py_slice_def py_slice_bound_def Let_def min_def max_def)

lemma py_slice_strip_zero: "py_slice n 0 (- 0) = (0, 0)"
  by (simp add: py_slice_def py_slice_bound_def)

lemma slice_last2_eq:
  assumes "shape A = pre @ [h, w]"
    and "py_slice h a b = (r0, rl)" and "py_slice w c d = (c0, cl)"
  shows "slice_last2 A (a, b) (c, d)
     = Inr (tabulate (pre @ [rl, cl])
              (\<lambda>idx. elem A (idx[length pre := idx ! length pre + r0,
                                 Suc (length pre) := idx ! Suc (length pre) + c0])))"
proof -
  have k: "length (pre @ [h, w]) - 2 = length pre" by simp
  have n: "(pre @ [h, w]) ! length pre = h" "(pre @ [h, w]) ! Suc (length pre) = w"
    by (simp_all add: nth_append)
  have u: "(pre @ [h, w])[length pre := rl, Suc (length pre) := cl] = pre @ [rl, cl]"
    by (simp add: list_update_append)
  show ?thesis
    unfolding slice_last2_def slice_axes_def assms(1) k Let_def n fst_conv snd_conv assms(2,3)
    using u by (simp add: list_update_append)
qed

text \<open>
  The strip \<^verbatim>\<open>dX[..., pH:-pH, pW:-pW]\<close> with both amounts positive removes \<open>pH\<close> rows and
  \<open>pW\<close> columns on each side.
\<close>

lemma strip_positive_padding:
  assumes sh: "shape dX = pre @ [Hp, Wp]" and p: "0 < pH" "0 < pW"
    and fit: "2 * nat pH \<le> Hp" "2 * nat pW \<le> Wp"
  shows "\<exists>S. slice_last2 dX (pH, - pH) (pW, - pW) = Inr S
     \<and> shape S = pre @ [Hp - 2 * nat pH, Wp - 2 * nat pW]
     \<and> (\<forall>ip y x. valid_idx pre ip \<and> y < Hp - 2 * nat pH \<and> x < Wp - 2 * nat pW \<longrightarrow>
           elem S (ip @ [y, x]) = elem dX (ip @ [y + nat pH, x + nat pW]))"
proof -
  have r: "py_slice Hp pH (- pH) = (nat pH, Hp - 2 * nat pH)"
    using py_slice_strip [OF p(1), of Hp] fit(1) by (simp add: min_def)
  have c: "py_slice Wp pW (- pW) = (nat pW, Wp - 2 * nat pW)"
    using py_slice_strip [OF p(2), of Wp] fit(2) by (simp add: min_def)
  let ?F = "\<lambda>idx. elem dX (idx[length pre := idx ! length pre + nat pH,
                                 Suc (length pre) := idx ! Suc (length pre) + nat pW])"
  let ?S = "tabulate (pre @ [Hp - 2 * nat pH, Wp - 2 * nat pW]) ?F"
  have eq: "slice_last2 dX (pH, - pH) (pW, - pW) = Inr ?S"
    using slice_last2_eq [OF sh r c] .
  have "elem ?S (ip @ [y, x]) = elem dX (ip @ [y + nat pH, x + nat pW])"
    if v: "valid_idx pre ip" and y: "y < Hp - 2 * nat pH" and x: "x < Wp - 2 * nat pW" for ip y x
  proof -
    have len: "length ip = length pre" using v by (rule valid_idx_length)
    have "valid_idx (pre @ [Hp - 2 * nat pH, Wp - 2 * nat pW]) (ip @ [y, x])"
      using v y x len by (simp add: valid_idx_append)
    then have "elem ?S (ip @ [y, x]) = ?F (ip @ [y, x])" by (rule elem_tabulate)
    then show ?thesis using len by (simp add: nth_last2 update_last2)
  qed
  then show ?thesis using eq by simp
qed

text \<open>
  With \<open>pH = 0\<close> and \<open>pW \<noteq> 0\<close> the guard \<^verbatim>\<open>padding != (0, 0)\<close> lets the strip run, and
  the row slice \<^verbatim>\<open>0:-0\<close> is empty whatever the tensor holds.
\<close>

lemma strip_zero_row_padding_is_empty:
  assumes sh: "shape dX = pre @ [Hp, Wp]"
  shows "\<exists>S cl. slice_last2 dX (0, - 0) (pW, - pW) = Inr S \<and> shape S = pre @ [0, cl]"
proof -
  obtain c0 cl where c: "py_slice Wp pW (- pW) = (c0, cl)" by (cases "py_slice Wp pW (- pW)")
  show ?thesis
    using slice_last2_eq [OF sh py_slice_strip_zero c] by auto
qed

text \<open>
  C4 (the code departs from the claim).  The claim: for every padding other than
  \<open>(0, 0)\<close>, also when exactly one of the two amounts is zero, the returned gradient has
  the spatial shape of the unpadded input.  With the padding \<open>(0, 1)\<close> (kernel \<open>(1, 3)\<close> in
  \<^verbatim>\<open>same\<close> mode) on a \<open>2 \<times> 2\<close> input, the slice \<^verbatim>\<open>pH:-pH\<close> is \<^verbatim>\<open>0:0\<close> and the result has
  no rows: shape \<open>(1, 0, 2, 1)\<close> instead of \<open>(1, 2, 2, 1)\<close>.  With both amounts positive
  the strip is right (\<open>strip_positive_padding\<close>).
\<close>

theorem C4_strip_with_one_zero_pad_is_empty:
  "accumulate_dX_conv [1, 1, 2, 4] (2, 2)
     (NDArray [1, 4, 1, 3] [1, 2, 3, 4, 5, 6, 7, 8, 9, 10, 11, 12 :: int])
     (1, 1) (1, 3) [-1, 1, 1, 3] (0, 1) True = Inr (NDArray [1, 0, 2, 1] [])"
  by code_simp

text \<open>Before the strip, the padded gradient of that input is there in full.\<close>

lemma accumulate_dX_conv_unstripped_example:
  "accumulate_dX_conv [1, 1, 2, 4] (2, 2)
     (NDArray [1, 4, 1, 3] [1, 2, 3, 4, 5, 6, 7, 8, 9, 10, 11, 12 :: int])
     (1, 1) (1, 3) [-1, 1, 1, 3] (0, 0) True
   = Inr (NDArray [1, 2, 4, 1] [1, 6, 8, 6, 7, 18, 20, 12])"
  by code_simp

section \<open>Facts about the pooling layers\<close>

lemma argmax_first_less: "xs \<noteq> [] \<Longrightarrow> argmax_first xs < length xs"
  by (induction xs) (auto simp: Let_def)

lemma argmax_first_max: "j < length xs \<Longrightarrow> xs ! j \<le> xs ! argmax_first xs"
proof (induction xs arbitrary: j)
  case Nil
  then show ?case by simp
next
  case (Cons x xs)
  show ?case
  proof (cases j)
    case 0
    then show ?thesis by (auto simp: Let_def)
  next
    case (Suc j')
    then have j': "j' < length xs" using Cons.prems by simp
    then have "xs ! j' \<le> xs ! argmax_first xs" by (rule Cons.IH)
    then show ?thesis using Suc j' by (auto simp: Let_def)
  qed
qed

lemma argmax_first_first: "j < argmax_first xs \<Longrightarrow> xs ! j < xs ! argmax_first xs"
proof (induction xs arbitrary: j)
  case Nil
  then show ?case by simp
next
  case (Cons x xs)
  from Cons.prems have big: "xs \<noteq> []" "x < xs ! argmax_first xs"
    and am: "argmax_first (x # xs) = Suc (argmax_first xs)"
    by (auto simp: Let_def split: if_splits)
  show ?case
  proof (cases j)
    case 0
    then show ?thesis using big am by simp
  next
    case (Suc j')
    then have "j' < argmax_first xs" using Cons.prems am by simp
    then have "xs ! j' < xs ! argmax_first xs" by (rule Cons.IH)
    then show ?thesis using Suc am by simp
  qed
qed

lemma nth_concat_uniform:
  "\<forall>xs\<in>set xss. length xs = p \<Longrightarrow> r < length xss \<Longrightarrow> k < p \<Longrightarrow>
     concat xss ! (r * p + k) = xss ! r ! k"
proof (induction xss arbitrary: r)
  case Nil
  then show ?case by simp
next
  case (Cons xs xss)
  show ?case
  proof (cases r)
    case 0
    then show ?thesis using Cons.prems by (simp add: nth_append)
  next
    case (Suc r')
    then have "concat xss ! (r' * p + k) = xss ! r' ! k"
      using Cons.prems by (intro Cons.IH) auto
    then show ?thesis using Suc Cons.prems by (simp add: nth_append add.assoc)
  qed
qed

lemma length_rows_of: "length (rows_of ip) = prod_list (butlast (shape ip))"
  by (simp add: rows_of_def Let_def)

lemma rows_of_nth:
  assumes "wf_array ip" and "shape ip = pre @ [pa]" and "r < prod_list pre" and "k < pa"
  shows "length (rows_of ip ! r) = pa" and "rows_of ip ! r ! k = flat ip ! (r * pa + k)"
proof -
  have len: "length (flat ip) = prod_list pre * pa"
    using assms(1,2) by (simp add: wf_array_def)
  have "r * pa + pa \<le> prod_list pre * pa"
  proof -
    have "Suc r * pa \<le> prod_list pre * pa" using assms(3) by (intro mult_le_mono1) simp
    then show ?thesis by simp
  qed
  then have room: "r * pa + pa \<le> length (flat ip)" using len by simp
  have row: "rows_of ip ! r = take pa (drop (r * pa) (flat ip))"
    using assms(2,3) by (simp add: rows_of_def Let_def)
  show "length (rows_of ip ! r) = pa" using room by (simp add: row)
  show "rows_of ip ! r ! k = flat ip ! (r * pa + k)"
    using room assms(4) by (simp add: row)
qed

lemma elem_last_axis:
  assumes "shape A = pre @ [pa]" and "length ip = length pre"
  shows "elem A (ip @ [k]) = flat A ! (ravel pre ip * pa + k)"
  using assms by (simp add: elem_def ravel_append)

lemma resolve_shape_infer_last:
  assumes "n = a * b * c * m" and "0 < a * b * c"
  shows "resolve_shape n [int a, int b, int c, -1] = Inr [a, b, c, m]"
  using assms by (simp add: resolve_shape_def)

lemma resolve_shape_infer_middle:
  assumes "n = m * w * c" and "0 < m * c"
  shows "resolve_shape n [int m, -1, int c] = Inr [m, w, c]"
  using assms by (simp add: resolve_shape_def)

lemma max_mask_elem:
  fixes ip :: "('a::linorder) ndarray"
  assumes wf: "wf_array ip" and sh: "shape ip = pre @ [pa]"
    and v: "valid_idx pre ipx" and k: "k < pa"
  defines "msk \<equiv> NDArray (pre @ [pa])
             (concat (map (\<lambda>k. map (\<lambda>j. j = k) [0..<pa]) (map argmax_first (rows_of ip))))"
  shows "elem msk (ipx @ [k]) \<longleftrightarrow> k = argmax_first (rows_of ip ! ravel pre ipx)"
    and "rows_of ip ! ravel pre ipx ! k = elem ip (ipx @ [k])"
    and "length (rows_of ip ! ravel pre ipx) = pa"
proof -
  let ?r = "ravel pre ipx"
  have r: "?r < prod_list pre" using v by (rule ravel_less)
  have len: "length ipx = length pre" using v by (rule valid_idx_length)
  have nrows: "length (rows_of ip) = prod_list pre" using sh by (simp add: length_rows_of)
  let ?rows = "map (\<lambda>k. map (\<lambda>j. j = k) [0..<pa]) (map argmax_first (rows_of ip))"
  have "elem msk (ipx @ [k]) = concat ?rows ! (?r * pa + k)"
    using len by (simp add: msk_def elem_def ravel_append)
  also have "\<dots> = ?rows ! ?r ! k"
    using r k nrows by (intro nth_concat_uniform) auto
  also have "\<dots> \<longleftrightarrow> k = argmax_first (rows_of ip ! ?r)"
    using r k nrows by simp
  finally show "elem msk (ipx @ [k]) \<longleftrightarrow> k = argmax_first (rows_of ip ! ?r)" .
  show "rows_of ip ! ?r ! k = elem ip (ipx @ [k])"
    using rows_of_nth(2) [OF wf sh r k] elem_last_axis [OF sh len] by simp
  show "length (rows_of ip ! ?r) = pa"
    using rows_of_nth(1) [OF wf sh r k] .
qed

lemma MaxPooling2D_get_pool_outputs_mask:
  fixes ip :: "('a::linorder) ndarray"
  assumes "shape ip = [m, oH * oW, C, pa]" and "0 < pa" and "0 < C * oH * oW"
    and "windows L = C" and "out_H L = int oH" and "out_W L = int oW"
  shows "\<exists>out. MaxPooling2D_get_pool_outputs L ip =
     Inr (out, Mask (NDArray [m, oH * oW, C, pa]
             (concat (map (\<lambda>k. map (\<lambda>j. j = k) [0..<pa]) (map argmax_first (rows_of ip))))))"
proof -
  have "resolve_shape (C * (oH * oW * m)) [int C, int oH, int oW, -1] = Inr [C, oH, oW, m]"
    using assms(3) by (intro resolve_shape_infer_last) (simp_all add: algebra_simps)
  then show ?thesis
    using assms
    by (simp add: MaxPooling2D_get_pool_outputs_def Let_def swapaxes_first_last_def swap_ends_def
          np_reshape_def)
qed

lemma reshape_dA_elem:
  assumes sh: "shape dA = [C, oH, oW, m]"
    and b: "b < m" and w: "w < oH * oW" and c: "c < C"
  shows "\<exists>dA'. reshape_dA dA C = Inr dA' \<and> shape dA' = [m, oH * oW, C]
     \<and> elem dA' [b, w, c] = elem dA [c, w div oW, w mod oW, b]"
proof -
  let ?T = "tabulate [m, oH, oW, C] (\<lambda>idx. elem dA (swap_ends idx))"
  have sw: "swapaxes_first_last dA = Inr ?T"
    using sh by (simp add: swapaxes_first_last_def swap_ends_def)
  have "0 < m * C" using b c by simp
  then have rs: "resolve_shape (m * (oH * (oW * C))) [int m, -1, int C] = Inr [m, oH * oW, C]"
    by (intro resolve_shape_infer_middle) (simp_all add: algebra_simps)
  let ?R = "NDArray [m, oH * oW, C] (flat ?T)"
  have res: "reshape_dA dA C = Inr ?R"
    using sw rs sh by (simp add: reshape_dA_def np_reshape_def)
  have oW: "0 < oW" using w by (cases oW) simp_all
  have i: "w div oW < oH" using w oW by (simp add: less_mult_imp_div_less mult.commute)
  have j: "w mod oW < oW" using oW by simp
  have dm: "w div oW * oW + w mod oW = w" by simp
  have "ravel [m, oH * oW, C] [b, w, c] = (b * (oH * oW) + w) * C + c"
    by (simp add: algebra_simps)
  also have "\<dots> = (b * (oH * oW) + (w div oW * oW + w mod oW)) * C + c"
    unfolding dm ..
  also have "\<dots> = ravel [m, oH, oW, C] [b, w div oW, w mod oW, c]"
  proof -
    have "ravel [m, oH, oW, C] [b, i, j, c] = (b * (oH * oW) + (i * oW + j)) * C + c" for i j
      by (simp add: algebra_simps)
    then show ?thesis by (simp only:)
  qed
  finally have rav: "ravel [m, oH * oW, C] [b, w, c] = ravel [m, oH, oW, C] [b, w div oW, w mod oW, c]" .
  have "elem ?R [b, w, c] = elem ?T [b, w div oW, w mod oW, c]"
    using rav by (simp add: elem_def del: ravel.simps)
  also have "\<dots> = elem dA (swap_ends [b, w div oW, w mod oW, c])"
    using b i j c by (intro elem_tabulate) simp
  also have "\<dots> = elem dA [c, w div oW, w mod oW, b]"
    by (simp add: swap_ends_def)
  finally show ?thesis using res by simp
qed

lemma share_times_mask_elem:
  fixes G :: "('a::semiring_1) ndarray"
  assumes shm: "shape msk = [m, nW, C, pa]" and shG: "shape G = [m, nW, C]"
    and b: "b < m" and w: "w < nW" and c: "c < C" and k: "k < pa"
  shows "\<exists>dIp. share_times (Mask msk) (expand_last G) = Inr dIp \<and> shape dIp = [m, nW, C, pa]
     \<and> elem dIp [b, w, c, k] = of_bool (elem msk [b, w, c, k]) * elem G [b, w, c]"
proof -
  have bs: "broadcast_shape [m, nW, C, pa] [m, nW, C, 1] = Some [m, nW, C, pa]"
    by (simp add: broadcast_shape_def)
  let ?f = "\<lambda>idx. of_bool (elem msk (broadcast_idx (shape msk) idx))
                   * elem (expand_last G) (broadcast_idx (shape (expand_last G)) idx)"
  have eq: "share_times (Mask msk) (expand_last G) = Inr (tabulate [m, nW, C, pa] ?f)"
    using bs by (simp add: np_binop_def shm shG expand_last_def)
  have v: "valid_idx [m, nW, C, pa] [b, w, c, k]" using b w c k by simp
  have i1: "broadcast_idx (shape msk) [b, w, c, k] = [b, w, c, k]"
    unfolding shm using v by (rule broadcast_idx_same)
  have i2: "broadcast_idx (shape (expand_last G)) [b, w, c, k] = [b, w, c, 0]"
    using b w c by (auto simp: broadcast_idx_def expand_last_def shG)
  have e: "elem (expand_last G) [b, w, c, 0] = elem G [b, w, c]"
    by (simp add: elem_def expand_last_def shG)
  have "elem (tabulate [m, nW, C, pa] ?f) [b, w, c, k] = ?f [b, w, c, k]"
    using v by (rule elem_tabulate)
  then show ?thesis using eq i1 i2 e by simp
qed

lemma backprop_step_scatter:
  assumes "reshape_dA dA0 (windows L) = Inr dA" and "requires_dX L"
    and "padded_shape L = Some ps" and "dX_share L = Some sh"
    and "share_times sh (expand_last dA) = Inr dIp"
  shows "backprop_step L dA0 =
     (case accumulate_dX_conv (hd (shape dA) # windows L # ps) (out_H L, out_W L) dIp
             (stride L) (pool_size L)
             [-1, int (windows L), fst (pool_size L), snd (pool_size L)]
             (p_H L, p_W L) True of
        Inl e \<Rightarrow> Inl e
      | Inr dX \<Rightarrow> Inr (Some dX, reset_attrs L))"
  using assms by (simp add: backprop_step_def)

section \<open>Claims on the pooling layers\<close>

text \<open>
  The first part of \<^verbatim>\<open>_pool\<close> (padding and window extraction) calls \<^verbatim>\<open>pad\<close> and
  \<^verbatim>\<open>vectorize_for_conv\<close> of the package \<^verbatim>\<open>dnn.layers.utils\<close> with a signature that
  \<^verbatim>\<open>conv_utils.py\<close> does not have, so the claims are stated from the tensor \<open>ip\<close> that
  \<^verbatim>\<open>_get_pool_outputs\<close> receives and from the layer that stores what it returns.
\<close>

text \<open>
  C6.  For max pooling, for every window \<open>w\<close>, channel \<open>c\<close> and batch element \<open>b\<close>: the
  mask \<^verbatim>\<open>_get_pool_outputs\<close> returns, multiplied with the reshaped output gradient as
  \<^verbatim>\<open>backprop_step\<close> does, gives the tensor \<open>dIp\<close> that \<^verbatim>\<open>backprop_step\<close> hands to
  \<^verbatim>\<open>accumulate_dX_conv\<close>; in it the window's output gradient \<open>dA[c, w div oW, w mod oW, b]\<close>
  stands at the position \<open>kmax\<close> and zero at every other position of the window, where
  \<open>kmax\<close> is the first position of the window's maximum in flattened scan order (no
  earlier position is as large, no position is larger).
\<close>

theorem C6_max_pool_gradient_goes_to_first_argmax:
  fixes ip dA :: "('a::{linorder,semiring_1}) ndarray"
  assumes wf: "wf_array ip" and sh: "shape ip = [m, oH * oW, C, pa]"
    and L: "windows L = C" "out_H L = int oH" "out_W L = int oW"
    and st: "requires_dX L" "padded_shape L = Some ps"
    and dA: "shape dA = [C, oH, oW, m]"
    and b: "b < m" and w: "w < oH * oW" and c: "c < C" and pa: "0 < pa"
  shows "\<exists>out msk dA' dIp.
      MaxPooling2D_get_pool_outputs L ip = Inr (out, Mask msk)
    \<and> reshape_dA dA (windows L) = Inr dA'
    \<and> share_times (Mask msk) (expand_last dA') = Inr dIp
    \<and> backprop_step (L\<lparr>dX_share := Some (Mask msk)\<rparr>) dA =
        (case accumulate_dX_conv (m # C # ps) (int oH, int oW) dIp (stride L) (pool_size L)
                [-1, int C, fst (pool_size L), snd (pool_size L)] (p_H L, p_W L) True of
           Inl e \<Rightarrow> Inl e
         | Inr dX \<Rightarrow> Inr (Some dX, reset_attrs (L\<lparr>dX_share := Some (Mask msk)\<rparr>)))
    \<and> (let kmax = argmax_first (window_of ip b w c) in
         kmax < pa
       \<and> (\<forall>k<pa. elem ip [b, w, c, k] \<le> elem ip [b, w, c, kmax])
       \<and> (\<forall>k<kmax. elem ip [b, w, c, k] < elem ip [b, w, c, kmax])
       \<and> elem dIp [b, w, c, kmax] = elem dA [c, w div oW, w mod oW, b]
       \<and> (\<forall>k<pa. k \<noteq> kmax \<longrightarrow> elem dIp [b, w, c, k] = 0))"
proof -
  let ?msk = "NDArray [m, oH * oW, C, pa]
             (concat (map (\<lambda>k. map (\<lambda>j. j = k) [0..<pa]) (map argmax_first (rows_of ip))))"
  have nz: "0 < C * oH * oW" using w c by (cases "oH * oW") (simp_all add: mult.assoc)
  from MaxPooling2D_get_pool_outputs_mask [OF sh pa nz L]
  obtain out where out: "MaxPooling2D_get_pool_outputs L ip = Inr (out, Mask ?msk)" by blast
  from reshape_dA_elem [OF dA b w c]
  obtain dA' where dA': "reshape_dA dA C = Inr dA'" and shA': "shape dA' = [m, oH * oW, C]"
    and elA': "elem dA' [b, w, c] = elem dA [c, w div oW, w mod oW, b]" by blast
  have shm: "shape ?msk = [m, oH * oW, C, pa]" by simp
  have sh': "shape ip = [m, oH * oW, C] @ [pa]" using sh by simp
  have v: "valid_idx [m, oH * oW, C] [b, w, c]" using b w c by simp
  let ?row = "rows_of ip ! ravel [m, oH * oW, C] [b, w, c]"
  have row: "?row = window_of ip b w c"
  proof (rule nth_equalityI)
    show "length ?row = length (window_of ip b w c)"
      using max_mask_elem(3) [OF wf sh' v] pa sh by (simp add: window_of_def)
  next
    fix k assume "k < length ?row"
    then have k: "k < pa" using max_mask_elem(3) [OF wf sh' v] pa by simp
    then show "?row ! k = window_of ip b w c ! k"
      using max_mask_elem(2) [OF wf sh' v k] sh by (simp add: window_of_def)
  qed
  let ?kmax = "argmax_first (window_of ip b w c)"
  have lenw: "length (window_of ip b w c) = pa" using sh by (simp add: window_of_def)
  have nthw: "window_of ip b w c ! k = elem ip [b, w, c, k]" if "k < pa" for k
    using that sh by (simp add: window_of_def)
  have kmax: "?kmax < pa"
    using argmax_first_less [of "window_of ip b w c"] lenw pa by auto
  have mx: "elem ip [b, w, c, k] \<le> elem ip [b, w, c, ?kmax]" if "k < pa" for k
    using argmax_first_max [of k "window_of ip b w c"] that lenw nthw kmax by simp
  have fst: "elem ip [b, w, c, k] < elem ip [b, w, c, ?kmax]" if "k < ?kmax" for k
    using argmax_first_first [of k "window_of ip b w c"] that nthw kmax by simp
  have mk: "elem ?msk [b, w, c, k] \<longleftrightarrow> k = ?kmax" if "k < pa" for k
    using max_mask_elem(1) [OF wf sh' v that] row by simp
  have dIp: "\<exists>dIp. share_times (Mask ?msk) (expand_last dA') = Inr dIp
     \<and> elem dIp [b, w, c, ?kmax] = elem dA [c, w div oW, w mod oW, b]
     \<and> (\<forall>k<pa. k \<noteq> ?kmax \<longrightarrow> elem dIp [b, w, c, k] = 0)"
  proof -
    let ?f = "\<lambda>idx. of_bool (elem ?msk (broadcast_idx (shape ?msk) idx))
                   * elem (expand_last dA') (broadcast_idx (shape (expand_last dA')) idx)"
    have bs: "broadcast_shape [m, oH * oW, C, pa] [m, oH * oW, C, 1] = Some [m, oH * oW, C, pa]"
      by (simp add: broadcast_shape_def)
    have eq: "share_times (Mask ?msk) (expand_last dA') = Inr (tabulate [m, oH * oW, C, pa] ?f)"
      using bs by (simp add: np_binop_def shA' expand_last_def)
    have el: "elem (tabulate [m, oH * oW, C, pa] ?f) [b, w, c, k]
        = of_bool (elem ?msk [b, w, c, k]) * elem dA' [b, w, c]" if k: "k < pa" for k
    proof -
      from share_times_mask_elem [OF shm shA' b w c k]
      obtain d where d: "share_times (Mask ?msk) (expand_last dA') = Inr d"
        and e: "elem d [b, w, c, k] = of_bool (elem ?msk [b, w, c, k]) * elem dA' [b, w, c]"
        by blast
      from d eq have "d = tabulate [m, oH * oW, C, pa] ?f" by simp
      then show ?thesis using e by simp
    qed
    have "elem (tabulate [m, oH * oW, C, pa] ?f) [b, w, c, ?kmax] = elem dA [c, w div oW, w mod oW, b]"
      using el [OF kmax] mk [OF kmax] elA' by simp
    moreover have "elem (tabulate [m, oH * oW, C, pa] ?f) [b, w, c, k] = 0"
      if "k < pa" "k \<noteq> ?kmax" for k
      using el [OF that(1)] mk [OF that(1)] that(2) by simp
    ultimately show ?thesis using eq by blast
  qed
  then obtain dIp where sT: "share_times (Mask ?msk) (expand_last dA') = Inr dIp"
     and g1: "elem dIp [b, w, c, ?kmax] = elem dA [c, w div oW, w mod oW, b]"
     and g0: "\<forall>k<pa. k \<noteq> ?kmax \<longrightarrow> elem dIp [b, w, c, k] = 0" by blast
  let ?L = "L\<lparr>dX_share := Some (Mask ?msk)\<rparr>"
  have bp: "backprop_step ?L dA =
        (case accumulate_dX_conv (m # C # ps) (int oH, int oW) dIp (stride L) (pool_size L)
                [-1, int C, fst (pool_size L), snd (pool_size L)] (p_H L, p_W L) True of
           Inl e \<Rightarrow> Inl e
         | Inr dX \<Rightarrow> Inr (Some dX, reset_attrs ?L))"
    using backprop_step_scatter [of dA ?L dA' ps "Mask ?msk" dIp] dA' sT L st shA' by simp
  have props: "let kmax = ?kmax in
         kmax < pa
       \<and> (\<forall>k<pa. elem ip [b, w, c, k] \<le> elem ip [b, w, c, kmax])
       \<and> (\<forall>k<kmax. elem ip [b, w, c, k] < elem ip [b, w, c, kmax])
       \<and> elem dIp [b, w, c, kmax] = elem dA [c, w div oW, w mod oW, b]
       \<and> (\<forall>k<pa. k \<noteq> kmax \<longrightarrow> elem dIp [b, w, c, k] = 0)"
    unfolding Let_def using kmax mx fst g1 g0 by blast
  have dA'': "reshape_dA dA (windows L) = Inr dA'" using dA' L(1) by simp
  show ?thesis
    using out dA'' sT bp props by blast
qed

text \<open>A window with a tie, \<open>[3, 7, 7, 2]\<close>: the gradient 5 goes to position 1 only.\<close>

theorem C6_max_pool_gradient_goes_to_first_argmax_witness:
  "\<exists>out msk dA' dIp.
      MaxPooling2D_get_pool_outputs
        \<lparr>pool_size = (2, 2), stride = (2, 2), padding = ''valid'', p_H = 0, p_W = 0,
         windows = 1, ip_H = 2, ip_W = 2, out_H = 1, out_W = 1, pooled = None,
         padded_shape = Some [2, 2], dX_share = None, requires_dX = True\<rparr>
        (NDArray [1, 1, 1, 4] [3, 7, 7, 2 :: int]) = Inr (out, Mask msk)
    \<and> reshape_dA (NDArray [1, 1, 1, 1] [5 :: int]) 1 = Inr dA'
    \<and> share_times (Mask msk) (expand_last dA') = Inr dIp
    \<and> argmax_first (window_of (NDArray [1, 1, 1, 4] [3, 7, 7, 2 :: int]) 0 0 0) = 1
    \<and> elem dIp [0, 0, 0, 0] = 0 \<and> elem dIp [0, 0, 0, 1] = 5
    \<and> elem dIp [0, 0, 0, 2] = 0 \<and> elem dIp [0, 0, 0, 3] = 0"
proof -
  let ?L = "\<lparr>pool_size = (2, 2), stride = (2, 2), padding = ''valid'', p_H = 0, p_W = 0,
         windows = 1, ip_H = 2, ip_W = 2, out_H = 1, out_W = 1, pooled = None,
         padded_shape = Some [2, 2], dX_share = None, requires_dX = True\<rparr> :: int MaxPooling2D"
  let ?ip = "NDArray [1, 1, 1, 4] [3, 7, 7, 2 :: int]"
  let ?dA = "NDArray [1, 1, 1, 1] [5 :: int]"
  have h1: "wf_array ?ip" by (simp add: wf_array_def)
  have h2: "shape ?ip = [1, 1 * 1, 1, 4]" by simp
  have h3: "windows ?L = 1" "out_H ?L = int 1" "out_W ?L = int 1" by simp_all
  have h4: "requires_dX ?L" "padded_shape ?L = Some [2, 2]" by simp_all
  have h5: "shape ?dA = [1, 1, 1, 1]" by simp
  have h6: "(0::nat) < 1" "(0::nat) < 1 * 1" "(0::nat) < 4" by simp_all
  have am: "argmax_first (window_of ?ip 0 0 0) = 1"
    by (simp add: window_of_def elem_def upt_conv_Cons)
  from C6_max_pool_gradient_goes_to_first_argmax
         [OF h1 h2 h3 h4 h5 h6(1) h6(2) h6(1) h6(3)]
  obtain out msk dA' dIp where
      a: "MaxPooling2D_get_pool_outputs ?L ?ip = Inr (out, Mask msk)"
    and b: "reshape_dA ?dA (windows ?L) = Inr dA'"
    and c: "share_times (Mask msk) (expand_last dA') = Inr dIp"
    and d: "let kmax = argmax_first (window_of ?ip 0 0 0) in
         kmax < 4
       \<and> (\<forall>k<4. elem ?ip [0, 0, 0, k] \<le> elem ?ip [0, 0, 0, kmax])
       \<and> (\<forall>k<kmax. elem ?ip [0, 0, 0, k] < elem ?ip [0, 0, 0, kmax])
       \<and> elem dIp [0, 0, 0, kmax] = elem ?dA [0, 0 div 1, 0 mod 1, 0]
       \<and> (\<forall>k<4. k \<noteq> kmax \<longrightarrow> elem dIp [0, 0, 0, k] = 0)"
    by blast
  from d am have "elem dIp [0, 0, 0, 1] = 5"
    and z: "\<forall>k<4. k \<noteq> 1 \<longrightarrow> elem dIp [0, 0, 0, k] = 0"
    by (simp_all add: Let_def elem_def)
  moreover from z have "elem dIp [0, 0, 0, 0] = 0" "elem dIp [0, 0, 0, 2] = 0" "elem dIp [0, 0, 0, 3] = 0"
    by simp_all
  ultimately show ?thesis using a b c am by auto
qed

lemma avg_share_only_shape:
  fixes ip1 ip2 :: "('a::field) ndarray"
  assumes "shape ip1 = shape ip2"
  shows "map_sum id snd (AveragePooling2D_get_pool_outputs L ip1)
       = map_sum id snd (AveragePooling2D_get_pool_outputs L ip2)"
  using assms
  by (simp add: AveragePooling2D_get_pool_outputs_def Let_def swapaxes_first_last_def
        np_reshape_def split: list.splits sum.splits)

lemma backprop_step_ignores_pooled:
  "backprop_step (L\<lparr>pooled := p1, dX_share := s\<rparr>) dA
     = backprop_step (L\<lparr>pooled := p2, dX_share := s\<rparr>) dA"
  by (simp add: backprop_step_def reset_attrs_def split: sum.splits option.splits)

text \<open>
  C10.  For average pooling, the distribution tensor that \<^verbatim>\<open>_get_pool_outputs\<close> returns
  (and whether it raises) depends on the shape of its argument only; so for two forward
  inputs of one shape and the same output gradient, \<^verbatim>\<open>backprop_step\<close> on the layer that
  stored the outputs of the one and on the layer that stored the outputs of the other
  returns the same input gradient (and leaves the same layer).
\<close>

theorem C10_average_pool_backward_ignores_input_values:
  fixes ip1 ip2 :: "('a::field) ndarray"
  assumes "shape ip1 = shape ip2"
  shows "map_sum id snd (AveragePooling2D_get_pool_outputs L ip1)
           = map_sum id snd (AveragePooling2D_get_pool_outputs L ip2)
    \<and> (\<forall>out1 sh1 out2 sh2.
          AveragePooling2D_get_pool_outputs L ip1 = Inr (out1, sh1)
        \<and> AveragePooling2D_get_pool_outputs L ip2 = Inr (out2, sh2)
        \<longrightarrow> sh1 = sh2
          \<and> backprop_step (L\<lparr>pooled := Some out1, dX_share := Some sh1\<rparr>) dA
            = backprop_step (L\<lparr>pooled := Some out2, dX_share := Some sh2\<rparr>) dA)"
proof (intro conjI allI impI)
  show eq: "map_sum id snd (AveragePooling2D_get_pool_outputs L ip1)
           = map_sum id snd (AveragePooling2D_get_pool_outputs L ip2)"
    using assms by (rule avg_share_only_shape)
  fix out1 sh1 out2 sh2
  assume "AveragePooling2D_get_pool_outputs L ip1 = Inr (out1, sh1)
        \<and> AveragePooling2D_get_pool_outputs L ip2 = Inr (out2, sh2)"
  then show "sh1 = sh2" using eq by simp
  then show "backprop_step (L\<lparr>pooled := Some out1, dX_share := Some sh1\<rparr>) dA
            = backprop_step (L\<lparr>pooled := Some out2, dX_share := Some sh2\<rparr>) dA"
    using backprop_step_ignores_pooled by simp
qed

theorem C10_average_pool_backward_ignores_input_values_witness:
  "shape (NDArray [1, 1, 1, 4] [1, 2, 3, 6 :: rat]) = shape (NDArray [1, 1, 1, 4] [8, 0, 0, 0 :: rat])
   \<and> AveragePooling2D_get_pool_outputs
        \<lparr>pool_size = (2, 2), stride = (2, 2), padding = ''valid'', p_H = 0, p_W = 0,
         windows = 1, ip_H = 2, ip_W = 2, out_H = 1, out_W = 1, pooled = None,
         padded_shape = Some [2, 2], dX_share = None, requires_dX = True\<rparr>
        (NDArray [1, 1, 1, 4] [1, 2, 3, 6 :: rat])
      = Inr (NDArray [1, 1, 1, 1] [3], Distributed (NDArray [1, 1, 1, 4] [1/4, 1/4, 1/4, 1/4]))
   \<and> AveragePooling2D_get_pool_outputs
        \<lparr>pool_size = (2, 2), stride = (2, 2), padding = ''valid'', p_H = 0, p_W = 0,
         windows = 1, ip_H = 2, ip_W = 2, out_H = 1, out_W = 1, pooled = None,
         padded_shape = Some [2, 2], dX_share = None, requires_dX = True\<rparr>
        (NDArray [1, 1, 1, 4] [8, 0, 0, 0 :: rat])
      = Inr (NDArray [1, 1, 1, 1] [2], Distributed (NDArray [1, 1, 1, 4] [1/4, 1/4, 1/4, 1/4]))
   \<and> backprop_step
        \<lparr>pool_size = (2, 2), stride = (2, 2), padding = ''valid'', p_H = 0, p_W = 0,
         windows = 1, ip_H = 2, ip_W = 2, out_H = 1, out_W = 1,
         pooled = Some (NDArray [1, 1, 1, 1] [3]), padded_shape = Some [2, 2],
         dX_share = Some (Distributed (NDArray [1, 1, 1, 4] [1/4, 1/4, 1/4, 1/4])),
         requires_dX = True\<rparr>
        (NDArray [1, 1, 1, 1] [8 :: rat])
      = backprop_step
        \<lparr>pool_size = (2, 2), stride = (2, 2), padding = ''valid'', p_H = 0, p_W = 0,
         windows = 1, ip_H = 2, ip_W = 2, out_H = 1, out_W = 1,
         pooled = Some (NDArray [1, 1, 1, 1] [2]), padded_shape = Some [2, 2],
         dX_share = Some (Distributed (NDArray [1, 1, 1, 4] [1/4, 1/4, 1/4, 1/4])),
         requires_dX = True\<rparr>
        (NDArray [1, 1, 1, 1] [8 :: rat])"
proof -
  let ?L = "\<lparr>pool_size = (2, 2), stride = (2, 2), padding = ''valid'', p_H = 0, p_W = 0,
         windows = 1, ip_H = 2, ip_W = 2, out_H = 1, out_W = 1, pooled = None,
         padded_shape = Some [2, 2], dX_share = None, requires_dX = True\<rparr> :: rat MaxPooling2D"
  let ?ip1 = "NDArray [1, 1, 1, 4] [1, 2, 3, 6 :: rat]"
  let ?ip2 = "NDArray [1, 1, 1, 4] [8, 0, 0, 0 :: rat]"
  let ?D = "Distributed (NDArray [1, 1, 1, 4] [1/4, 1/4, 1/4, 1/4 :: rat])"
  have sh: "shape ?ip1 = shape ?ip2" by simp
  have a1: "AveragePooling2D_get_pool_outputs ?L ?ip1 = Inr (NDArray [1, 1, 1, 1] [3], ?D)"
    by code_simp
  have a2: "AveragePooling2D_get_pool_outputs ?L ?ip2 = Inr (NDArray [1, 1, 1, 1] [2], ?D)"
    by code_simp
  from C10_average_pool_backward_ignores_input_values [OF sh, of ?L "NDArray [1, 1, 1, 1] [8]"] a1 a2
  have "backprop_step (?L\<lparr>pooled := Some (NDArray [1, 1, 1, 1] [3]), dX_share := Some ?D\<rparr>)
            (NDArray [1, 1, 1, 1] [8])
      = backprop_step (?L\<lparr>pooled := Some (NDArray [1, 1, 1, 1] [2]), dX_share := Some ?D\<rparr>)
            (NDArray [1, 1, 1, 1] [8])"
    by blast
  then show ?thesis using sh a1 a2 by simp
qed

text \<open>The gradient both layers return: the output gradient 8 spread as 2 over the window.\<close>

lemma average_pool_backprop_example:
  "backprop_step
        \<lparr>pool_size = (2, 2), stride = (2, 2), padding = ''valid'', p_H = 0, p_W = 0,
         windows = 1, ip_H = 2, ip_W = 2, out_H = 1, out_W = 1,
         pooled = Some (NDArray [1, 1, 1, 1] [3]), padded_shape = Some [2, 2],
         dX_share = Some (Distributed (NDArray [1, 1, 1, 4] [1/4, 1/4, 1/4, 1/4])),
         requires_dX = True\<rparr>
        (NDArray [1, 1, 1, 1] [8 :: rat])
    = Inr (Some (NDArray [1, 2, 2, 1] [2, 2, 2, 2]),
        \<lparr>pool_size = (2, 2), stride = (2, 2), padding = ''valid'', p_H = 0, p_W = 0,
         windows = 1, ip_H = 2, ip_W = 2, out_H = 1, out_W = 1, pooled = None,
         padded_shape = Some [2, 2], dX_share = None, requires_dX = True\<rparr>)"
  by code_simp

section \<open>Facts about the concatenation layer\<close>

lemma py_slice_prefix: "py_slice (a + b) 0 (int a) = (0, a)"
  by (simp add: py_slice_def py_slice_bound_def)

lemma py_slice_suffix: "py_slice (a + b) (int a) (int a + int b) = (a, b)"
  by (simp add: py_slice_def py_slice_bound_def Let_def)

lemma shape_concat2 [simp]: "shape (concat2 k A B) = (shape A)[k := shape A ! k + shape B ! k]"
  by (simp add: concat2_def)

lemma agree_update:
  assumes "length sa = length sb" and "\<forall>i<length sa. i \<noteq> k \<longrightarrow> sa ! i = sb ! i"
  shows "sa[k := d] = sb[k := d]"
proof (rule nth_equalityI)
  show "length (sa[k := d]) = length (sb[k := d])" using assms(1) by simp
next
  fix i assume "i < length (sa[k := d])"
  then have i: "i < length sa" by simp
  show "sa[k := d] ! i = sb[k := d] ! i"
  proof (cases "i = k")
    case True
    then show ?thesis using i assms(1) by simp
  next
    case False
    then show ?thesis using i assms by simp
  qed
qed

lemma concat2_split_left:
  assumes wfA: "wf_array A" and k: "k < length (shape A)"
  shows "slice_axis (concat2 k A B) k 0 (int (shape A ! k)) = A"
proof (rule ndarray_eqI)
  let ?a = "shape A ! k" and ?b = "shape B ! k"
  let ?C = "concat2 k A B"
  have nthC: "shape ?C ! k = ?a + ?b" using k by simp
  have sl: "slice_axis ?C k 0 (int ?a)
      = tabulate ((shape ?C)[k := ?a]) (\<lambda>idx. elem ?C (idx[k := idx ! k + 0]))"
    unfolding slice_axis_def Let_def nthC py_slice_prefix by simp
  have shS: "(shape ?C)[k := ?a] = shape A" by simp
  show "wf_array (slice_axis ?C k 0 (int ?a))" unfolding sl by simp
  show "wf_array A" by (rule wfA)
  show sh: "shape (slice_axis ?C k 0 (int ?a)) = shape A" unfolding sl using shS by simp
  fix idx assume "valid_idx (shape (slice_axis ?C k 0 (int ?a))) idx"
  then have v: "valid_idx (shape A) idx" using sh by simp
  then have ik: "idx ! k < ?a" using k by (rule valid_idx_nth)
  have vC: "valid_idx (shape ?C) idx"
    using v k by (auto simp: valid_idx_iff nth_list_update)
  have "elem (slice_axis ?C k 0 (int ?a)) idx = elem ?C (idx[k := idx ! k + 0])"
    unfolding sl shS using v by (rule elem_tabulate)
  also have "\<dots> = elem ?C idx" by simp
  also have "\<dots> = elem A idx"
    unfolding concat2_def using vC ik by (simp add: elem_tabulate)
  finally show "elem (slice_axis ?C k 0 (int ?a)) idx = elem A idx" .
qed

lemma concat2_split_right:
  assumes wfB: "wf_array B" and k: "k < length (shape A)"
    and len: "length (shape A) = length (shape B)"
    and agree: "\<forall>i<length (shape A). i \<noteq> k \<longrightarrow> shape A ! i = shape B ! i"
  shows "slice_axis (concat2 k A B) k (int (shape A ! k)) (int (shape A ! k) + int (shape B ! k)) = B"
proof (rule ndarray_eqI)
  let ?a = "shape A ! k" and ?b = "shape B ! k"
  let ?C = "concat2 k A B"
  let ?S = "slice_axis ?C k (int ?a) (int ?a + int ?b)"
  have nthC: "shape ?C ! k = ?a + ?b" using k by simp
  have sl: "?S = tabulate ((shape ?C)[k := ?b]) (\<lambda>idx. elem ?C (idx[k := idx ! k + ?a]))"
    unfolding slice_axis_def Let_def nthC py_slice_suffix by simp
  have "(shape A)[k := ?b] = (shape B)[k := ?b]" using len agree by (rule agree_update)
  then have shS: "(shape ?C)[k := ?b] = shape B" by simp
  show "wf_array ?S" unfolding sl by simp
  show "wf_array B" by (rule wfB)
  show sh: "shape ?S = shape B" unfolding sl using shS by simp
  fix idx assume "valid_idx (shape ?S) idx"
  then have v: "valid_idx (shape B) idx" using sh by simp
  have kB: "k < length (shape B)" using k len by simp
  have ik: "idx ! k < ?b" using v kB by (rule valid_idx_nth)
  have lidx: "length idx = length (shape B)" using v by (rule valid_idx_length)
  have vC: "valid_idx (shape ?C) (idx[k := idx ! k + ?a])"
    using v k len agree ik by (auto simp: valid_idx_iff nth_list_update)
  have "elem ?S idx = elem ?C (idx[k := idx ! k + ?a])"
    unfolding sl shS using v by (rule elem_tabulate)
  also have "\<dots> = elem B ((idx[k := idx ! k + ?a])[k := (idx[k := idx ! k + ?a]) ! k - ?a])"
    unfolding concat2_def using vC kB lidx by (simp add: elem_tabulate)
  also have "\<dots> = elem B idx" using kB lidx by simp
  finally show "elem ?S idx = elem B idx" .
qed

lemma excluded_enumerate:
  "map snd (filter (\<lambda>(i, dm). int i \<noteq> int k) (enumerate n sh))
     = (if n \<le> k then take (k - n) sh @ drop (Suc (k - n)) sh else sh)"
proof (induction sh arbitrary: n)
  case Nil
  then show ?case by simp
next
  case (Cons d sh)
  show ?case
  proof (cases "n \<le> k")
    case False
    then show ?thesis using Cons.IH [of "Suc n"] by simp
  next
    case True
    show ?thesis
    proof (cases "n = k")
      case True
      then show ?thesis using Cons.IH [of "Suc n"] by simp
    next
      case False
      with \<open>n \<le> k\<close> have "Suc n \<le> k" "k - n = Suc (k - Suc n)" by simp_all
      then show ?thesis using Cons.IH [of "Suc n"] False by simp
    qed
  qed
qed

lemma excluded_negative_axis:
  "ax < 0 \<Longrightarrow> map snd (filter (\<lambda>(i, dm). int i \<noteq> ax) (enumerate n sh)) = sh"
proof (induction sh arbitrary: n)
  case Nil
  then show ?case by simp
next
  case (Cons d sh)
  then show ?case by simp
qed

lemma excluded_eq_iff:
  assumes "length s1 = length s2" and "k < length s1"
  shows "take k s1 @ drop (Suc k) s1 = take k s2 @ drop (Suc k) s2 \<longleftrightarrow> s1[k := 0] = s2[k := (0::nat)]"
proof
  assume "take k s1 @ drop (Suc k) s1 = take k s2 @ drop (Suc k) s2"
  then have "take k s1 = take k s2" "drop (Suc k) s1 = drop (Suc k) s2"
    using assms by (simp_all add: append_eq_append_conv)
  then show "s1[k := 0] = s2[k := 0]"
    using assms by (simp add: upd_conv_take_nth_drop)
next
  assume eq: "s1[k := 0] = s2[k := 0]"
  have "take k (s1[k := 0]) = take k (s2[k := 0])" using eq by (simp only:)
  then have t: "take k s1 = take k s2" by simp
  have "drop (Suc k) (s1[k := 0]) = drop (Suc k) (s2[k := 0])" using eq by (simp only:)
  then have d: "drop (Suc k) s1 = drop (Suc k) s2" by simp
  show "take k s1 @ drop (Suc k) s1 = take k s2 @ drop (Suc k) s2"
    unfolding t d ..
qed

lemma get_axis_excluded_shapes_nonneg:
  "get_axis_excluded_shapes L (int k)
     = map (\<lambda>sh. take k sh @ drop (Suc k) sh) (input_shape L)"
  unfolding get_axis_excluded_shapes_def excluded_enumerate by simp

lemma get_axis_excluded_shapes_negative:
  "ax < 0 \<Longrightarrow> get_axis_excluded_shapes L ax = input_shape L"
  by (simp add: get_axis_excluded_shapes_def excluded_negative_axis)

lemma normalize_axis_nonneg: "k < nd \<Longrightarrow> normalize_axis (int k) nd = Some k"
  by (simp add: normalize_axis_def)

lemma py_index_nonneg: "k < length xs \<Longrightarrow> py_index xs (int k) = Inr (xs ! k)"
  by (simp add: py_index_def)

text \<open>Validation on a non-negative axis, any number of inputs.\<close>

lemma forward_step_nonneg_axis:
  assumes inp: "inputs L = A # rest" and ax: "axis L = int k" and k: "k < length (shape A)"
    and rank: "\<forall>B\<in>set rest. length (shape B) = length (shape A)"
  shows "(\<exists>B\<in>set rest. (shape B)[k := 0] \<noteq> (shape A)[k := 0]) \<Longrightarrow>
           forward_step L = (Inl (ShapeMismatch (take k (shape A) @ drop (Suc k) (shape A))), L)"
    and "(\<forall>B\<in>set rest. (shape B)[k := 0] = (shape A)[k := 0]) \<Longrightarrow>
           forward_step L = (Inr (foldl (concat2 k) A rest),
                             L\<lparr>concatenated := Some (foldl (concat2 k) A rest)\<rparr>)"
proof -
  let ?ex = "\<lambda>sh. take k sh @ drop (Suc k) sh"
  have ex: "get_axis_excluded_shapes L (axis L) = ?ex (shape A) # map (\<lambda>B. ?ex (shape B)) rest"
    using inp ax by (simp add: get_axis_excluded_shapes_nonneg input_shape_def comp_def)
  have iff: "?ex (shape B) = ?ex (shape A) \<longleftrightarrow> (shape B)[k := 0] = (shape A)[k := 0]"
    if "B \<in> set rest" for B
    using excluded_eq_iff [of "shape B" "shape A" k] rank that k by simp
  {
    assume "\<exists>B\<in>set rest. (shape B)[k := 0] \<noteq> (shape A)[k := 0]"
    then have "list_ex (\<lambda>sh. sh \<noteq> ?ex (shape A)) (map (\<lambda>B. ?ex (shape B)) rest)"
      using iff by (auto simp: list_ex_iff)
    then have "validate_same_shape L (axis L) = Inl (ShapeMismatch (?ex (shape A)))"
      using ex by (simp add: validate_same_shape_def)
    then show "forward_step L = (Inl (ShapeMismatch (?ex (shape A))), L)"
      by (simp add: forward_step_def)
  }
  {
    assume all: "\<forall>B\<in>set rest. (shape B)[k := 0] = (shape A)[k := 0]"
    then have "\<not> list_ex (\<lambda>sh. sh \<noteq> ?ex (shape A)) (map (\<lambda>B. ?ex (shape B)) rest)"
      using iff by (auto simp: list_ex_iff)
    then have val: "validate_same_shape L (axis L) = Inr ()"
      using ex by (simp add: validate_same_shape_def)
    have ne: "shape A \<noteq> []" using k by auto
    have c1: "\<not> list_ex (\<lambda>B. length (shape B) \<noteq> length (shape A)) rest"
      using rank by (simp add: list_ex_iff)
    have c2: "\<not> list_ex (\<lambda>B. (shape B)[k := 0] \<noteq> (shape A)[k := 0]) rest"
      using all by (simp add: list_ex_iff)
    have "np_concatenate (A # rest) (int k) = Inr (foldl (concat2 k) A rest)"
      using k ne c1 c2 by (simp add: np_concatenate_def normalize_axis_nonneg)
    then have "np_concatenate (inputs L) (axis L) = Inr (foldl (concat2 k) A rest)"
      using inp ax by simp
    then show "forward_step L = (Inr (foldl (concat2 k) A rest),
                             L\<lparr>concatenated := Some (foldl (concat2 k) A rest)\<rparr>)"
      using val by (simp add: forward_step_def)
  }
qed

text \<open>The round trip of a pair on a non-negative axis.\<close>

lemma concatenate_round_trip_nonneg_axis:
  assumes wfA: "wf_array A" and wfB: "wf_array B"
    and inp: "inputs L = [A, B]" and ax: "axis L = int k" and k: "k < length (shape A)"
    and len: "length (shape A) = length (shape B)"
    and agree: "\<forall>i<length (shape A). i \<noteq> k \<longrightarrow> shape A ! i = shape B ! i"
  shows "forward_step L = (Inr (concat2 k A B), L\<lparr>concatenated := Some (concat2 k A B)\<rparr>)"
    and "backprop_inputs (L\<lparr>concatenated := Some (concat2 k A B)\<rparr>) (concat2 k A B) = Inr [A, B]"
proof -
  have upd: "(shape B)[k := 0] = (shape A)[k := 0]"
    using agree_update [OF len agree, of 0] by simp
  show "forward_step L = (Inr (concat2 k A B), L\<lparr>concatenated := Some (concat2 k A B)\<rparr>)"
    using forward_step_nonneg_axis(2) [OF inp ax k] len upd by simp
  let ?L = "L\<lparr>concatenated := Some (concat2 k A B)\<rparr>"
  let ?a = "shape A ! k" and ?b = "shape B ! k"
  have kB: "k < length (shape B)" using k len by simp
  have si: "split_indices ?L = Inr [int ?a]"
    using inp ax k by (simp add: split_indices_def input_shape_def py_index_nonneg)
  have kC: "k < length (shape (concat2 k A B))" using k by simp
  have tot: "py_index (shape (concat2 k A B)) (int k) = Inr (?a + ?b)"
    using py_index_nonneg [OF kC] k by simp
  have "np_split (concat2 k A B) [int ?a] (int k)
      = Inr [slice_axis (concat2 k A B) k 0 (int ?a),
             slice_axis (concat2 k A B) k (int ?a) (int ?a + int ?b)]"
    using tot k by (simp add: np_split_def normalize_axis_nonneg)
  also have "\<dots> = Inr [A, B]"
    using concat2_split_left [OF wfA k] concat2_split_right [OF wfB k len agree] by simp
  finally show "backprop_inputs ?L (concat2 k A B) = Inr [A, B]"
    using si ax by (simp add: backprop_inputs_def)
qed

text \<open>
  On a negative axis no position is excluded, so the validation compares the whole
  shapes: inputs that differ along the concatenation axis only are rejected.
\<close>

lemma forward_step_negative_axis:
  assumes "inputs L = A # rest" and "axis L < 0" and "\<exists>B\<in>set rest. shape B \<noteq> shape A"
  shows "forward_step L = (Inl (ShapeMismatch (shape A)), L)"
proof -
  have "get_axis_excluded_shapes L (axis L) = shape A # map shape rest"
    using assms(1,2) by (simp add: get_axis_excluded_shapes_negative input_shape_def)
  moreover have "list_ex (\<lambda>sh. sh \<noteq> shape A) (map shape rest)"
    using assms(3) by (auto simp: list_ex_iff)
  ultimately have "validate_same_shape L (axis L) = Inl (ShapeMismatch (shape A))"
    by (simp add: validate_same_shape_def)
  then show ?thesis by (simp add: forward_step_def)
qed

section \<open>Claims on the concatenation layer\<close>

text \<open>
  C7 (the code departs from the claim).  The claim: for every pair \<open>A\<close>, \<open>B\<close> that agree
  on every axis except the concatenation axis, \<^verbatim>\<open>backprop_inputs\<close> applied to the output
  of \<^verbatim>\<open>forward_step\<close> returns \<open>(A, B)\<close>.  For shapes \<open>(1, 2)\<close> and \<open>(1, 3)\<close> and the last
  axis given as \<open>-1\<close>, \<^verbatim>\<open>forward_step\<close> raises and there is no output to split; with the
  same axis given as \<open>1\<close> the round trip returns \<open>(A, B)\<close>, as
  \<open>concatenate_round_trip_nonneg_axis\<close> proves for every non-negative axis.
\<close>

theorem C7_round_trip_raises_on_negative_axis:
  "fst (forward_step \<lparr>inputs = [NDArray [1, 2] [1, 2 :: int], NDArray [1, 3] [3, 4, 5]],
                      axis = - 1, concatenated = None\<rparr>)
     = Inl (ShapeMismatch [1, 2])
   \<and> forward_step \<lparr>inputs = [NDArray [1, 2] [1, 2 :: int], NDArray [1, 3] [3, 4, 5]],
                      axis = 1, concatenated = None\<rparr>
     = (Inr (NDArray [1, 5] [1, 2, 3, 4, 5]),
        \<lparr>inputs = [NDArray [1, 2] [1, 2 :: int], NDArray [1, 3] [3, 4, 5]],
         axis = 1, concatenated = Some (NDArray [1, 5] [1, 2, 3, 4, 5])\<rparr>)
   \<and> backprop_inputs
        \<lparr>inputs = [NDArray [1, 2] [1, 2 :: int], NDArray [1, 3] [3, 4, 5]],
         axis = 1, concatenated = Some (NDArray [1, 5] [1, 2, 3, 4, 5])\<rparr>
        (NDArray [1, 5] [1, 2, 3, 4, 5])
     = Inr [NDArray [1, 2] [1, 2], NDArray [1, 3] [3, 4, 5]]"
  by code_simp

text \<open>
  C8 (the code departs from the claim).  The claim: \<^verbatim>\<open>forward_step\<close> raises the shape
  mismatch, leaving \<^verbatim>\<open>concatenated\<close> unchanged, when two inputs disagree off the
  concatenation axis, and raises nothing when all dimensions off the axis agree.  On a
  non-negative axis this is \<open>forward_step_nonneg_axis\<close>.  With the axis \<open>-1\<close> and the
  shapes \<open>(1, 2)\<close> and \<open>(1, 3)\<close>, which agree off the last axis, it raises the mismatch,
  naming the whole shape \<open>(1, 2)\<close>.
\<close>

theorem C8_negative_axis_rejects_agreeing_inputs:
  "forward_step \<lparr>inputs = [NDArray [1, 2] [1, 2 :: int], NDArray [1, 3] [3, 4, 5]],
                 axis = - 1, concatenated = None\<rparr>
     = (Inl (ShapeMismatch [1, 2]),
        \<lparr>inputs = [NDArray [1, 2] [1, 2 :: int], NDArray [1, 3] [3, 4, 5]],
         axis = - 1, concatenated = None\<rparr>)"
  by code_simp

end
